theory Spec2Isabelle
  imports Complex_Main "HOL-Library.AList"
begin

section \<open>Numbers and layout constants\<close>

text \<open>
  JavaScript numbers are modelled as real numbers: every quantity below is a pixel
  length, a scale factor or a count, none of them is NaN or infinite, and the one
  place where the source uses \<open>Infinity\<close> (the initial \<open>bestFit\<close>) is an
  \<open>option\<close>. The concrete inputs used in the closed theorems below are chosen so that
  the source computes the same values in exact arithmetic and in doubles (with 1/10
  for the double nearest to 0.1).
\<close>

text \<open>The layout settings of the \<open>PivotApp\<close> constructor (pivot-app.js, lines 42-50).\<close>

definition baseHeight :: real where "baseHeight = 50"
definition itemGap :: real where "itemGap = 4"
definition blockGap :: real where "blockGap = 60"
definition padding :: real where "padding = 20"
definition minScale :: real where "minScale = 1 / 10"
definition maxScale :: real where "maxScale = 10"

text \<open>
  Where a claim depends on how results are rounded (the grid search, which compares
  computed values, and \<open>zoom\<close>, whose round trip is one of rounding errors), the
  arithmetic takes the rounding function \<open>fl\<close> (real to nearest double) as a parameter
  and applies it to the result of every operation. Exact arithmetic is the instance
  \<open>exact\<close>.
\<close>

definition exact :: "real \<Rightarrow> real" where
  "exact x = x"

text \<open>
  The standard model of floating-point arithmetic, without overflow and underflow:
  rounding a result changes it by at most the relative error \<open>u\<close> (the unit roundoff,
  \<open>2 ^ 53\<close> inverted for doubles, 0 for exact arithmetic).
\<close>

definition rounding :: "real \<Rightarrow> (real \<Rightarrow> real) \<Rightarrow> bool" where
  "rounding u fl = (\<forall>x. \<bar>fl x - x\<bar> \<le> u * \<bar>x\<bar>)"

text \<open>\<open>a || b\<close> on numbers: the left operand when it is truthy (not zero), else the right.\<close>

definition js_or :: "real \<Rightarrow> real \<Rightarrow> real" where
  "js_or a b = (if a = 0 then b else a)"

text \<open>\<open>parseFloat(s) || b\<close>: \<open>None\<close> is the NaN that \<open>parseFloat\<close> gives on an empty style.\<close>

definition parse_or :: "real option \<Rightarrow> real \<Rightarrow> real" where
  "parse_or a b = (case a of None \<Rightarrow> b | Some v \<Rightarrow> js_or v b)"

section \<open>Uniform grid layout (\<open>PivotApp.applyGridLayout\<close>)\<close>

record best =
  bestCellSize :: real
  bestCols :: nat
  bestRows :: nat
  bestFit :: "real option"

text \<open>
  The quantities the loop body computes for one column count (lines 488-501). The
  search compares these computed values with each other and with 30 and 200, so its
  arithmetic is modelled as the code performs it: the result of every arithmetic
  operation passes through \<open>fl\<close>, the rounding to a double.
\<close>

definition cand_rows :: "(real \<Rightarrow> real) \<Rightarrow> nat \<Rightarrow> nat \<Rightarrow> nat" where
  "cand_rows fl totalItems cols = nat \<lceil>fl (real totalItems / real cols)\<rceil>"

definition cand_cellSize :: "(real \<Rightarrow> real) \<Rightarrow> real \<Rightarrow> real \<Rightarrow> nat \<Rightarrow> nat \<Rightarrow> real" where
  "cand_cellSize fl containerWidth containerHeight totalItems cols =
     (let rows = cand_rows fl totalItems cols;
          cellWidth = fl (fl (containerWidth - fl (fl (real cols - 1) * itemGap)) / real cols);
          cellHeight = fl (fl (containerHeight - fl (fl (real rows - 1) * itemGap)) / real rows)
      in min cellWidth cellHeight)"

definition cand_wastedSpace :: "(real \<Rightarrow> real) \<Rightarrow> real \<Rightarrow> real \<Rightarrow> nat \<Rightarrow> nat \<Rightarrow> real" where
  "cand_wastedSpace fl containerWidth containerHeight totalItems cols =
     (let rows = cand_rows fl totalItems cols;
          cellSize = cand_cellSize fl containerWidth containerHeight totalItems cols;
          gridWidth = fl (fl (real cols * cellSize) + fl (fl (real cols - 1) * itemGap));
          gridHeight = fl (fl (real rows * cellSize) + fl (fl (real rows - 1) * itemGap))
      in fl (\<bar>fl (containerWidth - gridWidth)\<bar> + \<bar>fl (containerHeight - gridHeight)\<bar>))"

text \<open>A candidate survives the \<open>continue\<close> of line 496 when its cell size is in [30, 200].\<close>

definition admissible :: "(real \<Rightarrow> real) \<Rightarrow> real \<Rightarrow> real \<Rightarrow> nat \<Rightarrow> nat \<Rightarrow> bool" where
  "admissible fl containerWidth containerHeight totalItems cols =
     (\<not> (cand_cellSize fl containerWidth containerHeight totalItems cols < 30
         \<or> cand_cellSize fl containerWidth containerHeight totalItems cols > 200))"

text \<open>\<open>wastedSpace < bestFit\<close>, where \<open>None\<close> is the initial \<open>Infinity\<close>.\<close>

definition less_fit :: "real \<Rightarrow> real option \<Rightarrow> bool" where
  "less_fit w f = (case f of None \<Rightarrow> True | Some v \<Rightarrow> w < v)"

text \<open>One iteration of the loop of lines 487-509.\<close>

definition grid_step :: "(real \<Rightarrow> real) \<Rightarrow> real \<Rightarrow> real \<Rightarrow> nat \<Rightarrow> best \<Rightarrow> nat \<Rightarrow> best" where
  "grid_step fl containerWidth containerHeight totalItems b cols =
     (let rows = cand_rows fl totalItems cols;
          cellSize = cand_cellSize fl containerWidth containerHeight totalItems cols
      in if cellSize < 30 \<or> cellSize > 200 then b
         else let wastedSpace = cand_wastedSpace fl containerWidth containerHeight totalItems cols
              in if less_fit wastedSpace (bestFit b)
                 then \<lparr>bestCellSize = cellSize, bestCols = cols, bestRows = rows,
                       bestFit = Some wastedSpace\<rparr>
                 else b)"

text \<open>The initial values of lines 481-484.\<close>

definition best_init :: best where
  "best_init = \<lparr>bestCellSize = 60, bestCols = 1, bestRows = 1, bestFit = None\<rparr>"

text \<open>The loop \<open>for (cols = 1; cols <= totalItems; cols++)\<close>.\<close>

definition grid_search :: "(real \<Rightarrow> real) \<Rightarrow> real \<Rightarrow> real \<Rightarrow> nat \<Rightarrow> best" where
  "grid_search fl containerWidth containerHeight totalItems =
     foldl (grid_step fl containerWidth containerHeight totalItems) best_init [1..<Suc totalItems]"

record rect =
  r_left :: real
  r_top :: real
  r_width :: real
  r_height :: real

text \<open>
  \<open>itemElements\<close> maps an ad id to the \<open>hidden\<close> flag of its element (\<open>None\<close>: no
  element). The result lists, in order, the style assignments of lines 521-535; the
  empty list is the early return of line 477. The arithmetic that places the items
  after the search decides nothing and is in exact arithmetic.
\<close>

definition is_shown :: "('id \<rightharpoonup> bool) \<Rightarrow> 'id \<Rightarrow> bool" where
  "is_shown itemElements ad = (case itemElements ad of None \<Rightarrow> False | Some hidden \<Rightarrow> \<not> hidden)"

definition grid_place :: "real \<Rightarrow> real \<Rightarrow> real \<Rightarrow> nat \<Rightarrow> nat \<Rightarrow> rect" where
  "grid_place offsetX offsetY cellSize cols index =
     (let col = index mod cols;
          row = index div cols;
          x = offsetX + real col * (cellSize + itemGap);
          y = offsetY + real row * (cellSize + itemGap)
      in \<lparr>r_left = x, r_top = y, r_width = cellSize, r_height = cellSize\<rparr>)"

definition applyGridLayout ::
    "(real \<Rightarrow> real) \<Rightarrow> real \<Rightarrow> real \<Rightarrow> ('id \<rightharpoonup> bool) \<Rightarrow> 'id list \<Rightarrow> ('id \<times> rect) list" where
  "applyGridLayout fl clientWidth clientHeight itemElements filteredAds =
     (let containerWidth = clientWidth - padding * 2;
          containerHeight = clientHeight - padding * 2;
          visibleItems = filter (is_shown itemElements) filteredAds;
          totalItems = length visibleItems
      in if totalItems = 0 then []
         else let b = grid_search fl containerWidth containerHeight totalItems;
                  cellSize = real_of_int \<lfloor>bestCellSize b\<rfloor>;
                  cols = bestCols b;
                  gridWidth = real cols * cellSize + (real cols - 1) * itemGap;
                  gridHeight = real (bestRows b) * cellSize + (real (bestRows b) - 1) * itemGap;
                  offsetX = max 0 ((containerWidth - gridWidth) / 2);
                  offsetY = max 0 ((containerHeight - gridHeight) / 2)
              in map (\<lambda>(index, ad). (ad, grid_place offsetX offsetY cellSize cols index))
                     (enumerate 0 visibleItems))"

text \<open>
  Specification vocabulary for the search: the record the loop stores for a column
  count, and what it means for a record to be the selection among the column counts
  tried so far.
\<close>

definition cand_best :: "(real \<Rightarrow> real) \<Rightarrow> real \<Rightarrow> real \<Rightarrow> nat \<Rightarrow> nat \<Rightarrow> best" where
  "cand_best fl cw ch n c =
     \<lparr>bestCellSize = cand_cellSize fl cw ch n c, bestCols = c, bestRows = cand_rows fl n c,
      bestFit = Some (cand_wastedSpace fl cw ch n c)\<rparr>"

definition selected :: "(real \<Rightarrow> real) \<Rightarrow> real \<Rightarrow> real \<Rightarrow> nat \<Rightarrow> nat list \<Rightarrow> best \<Rightarrow> bool" where
  "selected fl cw ch n cs b =
     (if \<exists>c\<in>set cs. admissible fl cw ch n c
      then bestCols b \<in> set cs \<and> admissible fl cw ch n (bestCols b) \<and>
           b = cand_best fl cw ch n (bestCols b) \<and>
           (\<forall>c\<in>set cs. admissible fl cw ch n c \<longrightarrow>
              cand_wastedSpace fl cw ch n (bestCols b) \<le> cand_wastedSpace fl cw ch n c \<and>
              (cand_wastedSpace fl cw ch n c = cand_wastedSpace fl cw ch n (bestCols b)
                 \<longrightarrow> bestCols b \<le> c))
      else b = best_init)"

section \<open>Viewport (\<open>PivotApp.zoom\<close>, \<open>constrainPan\<close>, \<open>fitToViewport\<close>)\<close>

text \<open>The viewport state: \<open>this.scale\<close> and \<open>this.panOffset\<close>.\<close>

record viewport =
  scale :: real
  panOffset_x :: real
  panOffset_y :: real

text \<open>
  What the three operations read from the DOM: the client size of the grid container,
  and for the grid wrapper the parsed \<open>style.width\<close>/\<open>style.height\<close> (\<open>None\<close> when
  \<open>parseFloat\<close> gives NaN) and its \<open>offsetWidth\<close>/\<open>offsetHeight\<close>.
\<close>

record dom_sizes =
  container_clientWidth :: real
  container_clientHeight :: real
  wrapper_styleWidth :: "real option"
  wrapper_styleHeight :: "real option"
  wrapper_offsetWidth :: real
  wrapper_offsetHeight :: real

text \<open>
  One axis of \<open>constrainPan\<close> (lines 694-709 for x, 696-720 for y; the source repeats
  the same statements for each axis).
\<close>

definition constrain_axis :: "real \<Rightarrow> real \<Rightarrow> real \<Rightarrow> real" where
  "constrain_axis containerWidth contentWidth pan =
     (let minX = min 0 (containerWidth - contentWidth);
          maxX = max 0 (containerWidth - contentWidth)
      in if contentWidth \<le> containerWidth then (containerWidth - contentWidth) / 2
         else let p1 = max minX (min (if maxX = 0 then 0 else 0) pan);
                  p2 = (if p1 > 0 then 0 else p1)
              in if p2 < containerWidth - contentWidth then containerWidth - contentWidth else p2)"

definition constrainPan :: "dom_sizes \<Rightarrow> viewport \<Rightarrow> viewport" where
  "constrainPan d v =
     (let containerWidth = container_clientWidth d;
          containerHeight = container_clientHeight d;
          contentWidth = parse_or (wrapper_styleWidth d) (wrapper_offsetWidth d) * scale v;
          contentHeight = parse_or (wrapper_styleHeight d) (wrapper_offsetHeight d) * scale v
      in v\<lparr>panOffset_x := constrain_axis containerWidth contentWidth (panOffset_x v),
           panOffset_y := constrain_axis containerHeight contentHeight (panOffset_y v)\<rparr>)"

text \<open>
  The state of \<open>zoom\<close> just before its call of \<open>constrainPan\<close> (lines 656-667), with
  the result of every arithmetic operation rounded by \<open>fl\<close>.
\<close>

definition zoom_pivot :: "(real \<Rightarrow> real) \<Rightarrow> real \<Rightarrow> dom_sizes \<Rightarrow> viewport \<Rightarrow> viewport" where
  "zoom_pivot fl factor d v =
     (let oldScale = scale v;
          newScale = min maxScale (max minScale (fl (scale v * factor)));
          centerX = fl (container_clientWidth d / 2);
          centerY = fl (container_clientHeight d / 2);
          scaleChange = fl (newScale / oldScale)
      in \<lparr>scale = newScale,
          panOffset_x = fl (centerX - fl (fl (centerX - panOffset_x v) * scaleChange)),
          panOffset_y = fl (centerY - fl (fl (centerY - panOffset_y v) * scaleChange))\<rparr>)"

definition zoom :: "(real \<Rightarrow> real) \<Rightarrow> real \<Rightarrow> dom_sizes \<Rightarrow> viewport \<Rightarrow> viewport" where
  "zoom fl factor d v = constrainPan d (zoom_pivot fl factor d v)"

definition fit_contentWidth :: "dom_sizes \<Rightarrow> real" where
  "fit_contentWidth d = js_or (parse_or (wrapper_styleWidth d) (wrapper_offsetWidth d)) (container_clientWidth d)"

definition fit_contentHeight :: "dom_sizes \<Rightarrow> real" where
  "fit_contentHeight d = js_or (parse_or (wrapper_styleHeight d) (wrapper_offsetHeight d)) (container_clientHeight d)"

definition fitToViewport :: "dom_sizes \<Rightarrow> viewport \<Rightarrow> viewport" where
  "fitToViewport d v =
     (let containerWidth = container_clientWidth d;
          containerHeight = container_clientHeight d;
          contentWidth = fit_contentWidth d;
          contentHeight = fit_contentHeight d;
          s0 = (if contentWidth = 0 \<or> contentHeight = 0 then 1
                else let scaleX = (containerWidth - 40) / contentWidth;
                         scaleY = (containerHeight - 40) / contentHeight
                     in min scaleX scaleY);
          s = max minScale (min maxScale s0);
          scaledWidth = contentWidth * s;
          scaledHeight = contentHeight * s
      in \<lparr>scale = s,
          panOffset_x = (containerWidth - scaledWidth) / 2,
          panOffset_y = (containerHeight - scaledHeight) / 2\<rparr>)"


definition dom_wide :: dom_sizes where
  "dom_wide = \<lparr>container_clientWidth = 400, container_clientHeight = 300,
     wrapper_styleWidth = Some 360, wrapper_styleHeight = Some 100,
     wrapper_offsetWidth = 360, wrapper_offsetHeight = 100\<rparr>"

definition dom_zero :: dom_sizes where
  "dom_zero = \<lparr>container_clientWidth = 0, container_clientHeight = 0,
     wrapper_styleWidth = Some 100, wrapper_styleHeight = Some 100,
     wrapper_offsetWidth = 100, wrapper_offsetHeight = 100\<rparr>"

section \<open>Filtering (\<open>PivotApp.applyFilters\<close>, \<open>AdViewer.applyFilters\<close>)\<close>

text \<open>
  An ad of \<open>PivotApp\<close>: \<open>ad_id\<close> is \<open>String(ad.id)\<close> and \<open>ad_field ad f\<close> is \<open>ad[f]\<close>.
  \<open>activeFilters\<close> is the object of allow-lists, as the list of its entries.
\<close>

record ('f, 'v) pivot_ad =
  ad_id :: string
  ad_field :: "'f \<Rightarrow> 'v"

text \<open>The inner \<open>forEach\<close> of lines 350-356, with its mutable flag \<open>matches\<close>.\<close>

definition ad_matches :: "('f \<times> 'v list) list \<Rightarrow> ('f, 'v) pivot_ad \<Rightarrow> bool" where
  "ad_matches activeFilters ad =
     foldl (\<lambda>matches (field, values).
              if length values > 0 \<and> \<not> (ad_field ad field \<in> set values) then False else matches)
           True activeFilters"

definition matchingIds :: "('f \<times> 'v list) list \<Rightarrow> ('f, 'v) pivot_ad list \<Rightarrow> string set" where
  "matchingIds activeFilters ads =
     foldl (\<lambda>ids ad. if ad_matches activeFilters ad then insert (ad_id ad) ids else ids) {} ads"

text \<open>
  \<open>Array.prototype.sort\<close> with a comparator, as a stable insertion sort. The comparator
  of \<open>sortAds\<close> (lines 426-434) calls \<open>localeCompare\<close> and is a parameter here.
\<close>

fun insert_cmp :: "('a \<Rightarrow> 'a \<Rightarrow> real) \<Rightarrow> 'a \<Rightarrow> 'a list \<Rightarrow> 'a list" where
  "insert_cmp cmp x [] = [x]"
| "insert_cmp cmp x (y # ys) = (if cmp x y \<le> 0 then x # y # ys else y # insert_cmp cmp x ys)"

definition js_sort :: "('a \<Rightarrow> 'a \<Rightarrow> real) \<Rightarrow> 'a list \<Rightarrow> 'a list" where
  "js_sort cmp xs = foldr (insert_cmp cmp) xs []"

text \<open>Lines 349-365 and 436: the visible ads after filtering and sorting.\<close>

definition applyFilters ::
    "('f \<times> 'v list) list \<Rightarrow> (('f, 'v) pivot_ad \<Rightarrow> ('f, 'v) pivot_ad \<Rightarrow> real)
       \<Rightarrow> ('f, 'v) pivot_ad list \<Rightarrow> ('f, 'v) pivot_ad list" where
  "applyFilters activeFilters cmp ads =
     (let ids = matchingIds activeFilters ads;
          filteredAds = filter (\<lambda>ad. ad_id ad \<in> ids) ads
      in js_sort cmp filteredAds)"

text \<open>
  An ad of \<open>AdViewer\<close> with the attributes its filter reads: \<open>va_quality\<close> is
  \<open>ad.quality.toString()\<close> and \<open>va_issue\<close> is the truthiness of \<open>ad.issue\<close>. The filter
  state is the checked values of the five checkbox groups and the problems-only box.
\<close>

record 'v viewer_ad =
  va_product :: 'v
  va_size :: 'v
  va_topic :: 'v
  va_type :: 'v
  va_quality :: 'v
  va_issue :: bool

record 'v viewer_filters =
  products :: "'v list"
  sizes :: "'v list"
  topics :: "'v list"
  types :: "'v list"
  qualities :: "'v list"
  problemsOnly :: bool

definition viewer_keep :: "'v viewer_filters \<Rightarrow> 'v viewer_ad \<Rightarrow> bool" where
  "viewer_keep fl ad =
     (if length (products fl) \<noteq> 0 \<and> \<not> (va_product ad \<in> set (products fl)) then False
      else if length (sizes fl) \<noteq> 0 \<and> \<not> (va_size ad \<in> set (sizes fl)) then False
      else if length (topics fl) \<noteq> 0 \<and> \<not> (va_topic ad \<in> set (topics fl)) then False
      else if length (types fl) \<noteq> 0 \<and> \<not> (va_type ad \<in> set (types fl)) then False
      else if length (qualities fl) \<noteq> 0 \<and> \<not> (va_quality ad \<in> set (qualities fl)) then False
      else if problemsOnly fl \<and> \<not> va_issue ad then False
      else True)"

definition viewer_applyFilters :: "'v viewer_filters \<Rightarrow> 'v viewer_ad list \<Rightarrow> 'v viewer_ad list" where
  "viewer_applyFilters fl ads = filter (viewer_keep fl) ads"

text \<open>Concrete ads and filters used in the closed theorems.\<close>

definition ad_a :: "(string, string) pivot_ad" where
  "ad_a = \<lparr>ad_id = ''1'', ad_field = (\<lambda>f. if f = ''vertical'' then ''Auto'' else ''300x250'')\<rparr>"

definition ad_b :: "(string, string) pivot_ad" where
  "ad_b = \<lparr>ad_id = ''2'', ad_field = (\<lambda>f. if f = ''vertical'' then ''Retail'' else ''300x250'')\<rparr>"

definition filters_auto :: "(string \<times> string list) list" where
  "filters_auto = [(''vertical'', [''Auto'', ''Travel'']), (''size'', [])]"

definition viewer_ad_ok :: "string viewer_ad" where
  "viewer_ad_ok = \<lparr>va_product = ''Search'', va_size = ''300x250'', va_topic = ''News'',
     va_type = ''Display'', va_quality = ''5'', va_issue = False\<rparr>"

definition filters_problems :: "string viewer_filters" where
  "filters_problems = \<lparr>products = [], sizes = [], topics = [], types = [], qualities = [],
     problemsOnly = True\<rparr>"

section \<open>Grouped layout (\<open>PivotApp.applyGroupedLayout\<close>)\<close>

text \<open>
  Group keys are values of a linearly ordered type, whose order stands for the order
  that \<open>localeCompare\<close> gives to strings. \<open>attr ad\<close> is \<open>ad[this.currentGroupBy]\<close>, with
  \<open>None\<close> for a falsy value, and \<open>unknown\<close> is the key \<open>'Unknown'\<close>.
\<close>

definition group_key :: "'k \<Rightarrow> ('id \<Rightarrow> 'k option) \<Rightarrow> 'id \<Rightarrow> 'k" where
  "group_key unknown attr ad = (case attr ad of None \<Rightarrow> unknown | Some k \<Rightarrow> k)"

text \<open>The \<open>Map\<close> of lines 547-554, as the list of its entries in insertion order.\<close>

definition groups_push :: "('k \<times> 'id list) list \<Rightarrow> 'k \<Rightarrow> 'id \<Rightarrow> ('k \<times> 'id list) list" where
  "groups_push groups key ad =
     (case map_of groups key of
        None \<Rightarrow> groups @ [(key, [ad])]
      | Some l \<Rightarrow> AList.update key (l @ [ad]) groups)"

definition build_groups :: "'k \<Rightarrow> ('id \<Rightarrow> 'k option) \<Rightarrow> 'id list \<Rightarrow> ('k \<times> 'id list) list" where
  "build_groups unknown attr filteredAds =
     foldl (\<lambda>groups ad. groups_push groups (group_key unknown attr ad) ad) [] filteredAds"

definition sortedGroups ::
    "('k::linorder) \<Rightarrow> ('id \<Rightarrow> 'k option) \<Rightarrow> 'id list \<Rightarrow> ('k \<times> 'id list) list" where
  "sortedGroups unknown attr filteredAds = sort_key fst (build_groups unknown attr filteredAds)"

definition grouped_columnWidth :: "real \<Rightarrow> nat \<Rightarrow> real" where
  "grouped_columnWidth clientWidth numGroups =
     (let canvasWidth = clientWidth - padding * 2
      in real_of_int \<lfloor>canvasWidth / real numGroups\<rfloor>)"

definition group_cols :: "real \<Rightarrow> nat" where
  "group_cols columnWidth =
     (let cellSize = baseHeight
      in nat (max 1 \<lfloor>(columnWidth - blockGap) / (cellSize + itemGap)\<rfloor>))"

definition group_rows :: "real \<Rightarrow> nat \<Rightarrow> nat" where
  "group_rows columnWidth count = nat \<lceil>real count / real (group_cols columnWidth)\<rceil>"

text \<open>The first loop over the groups (lines 572-580).\<close>

definition stack_step :: "real \<Rightarrow> real \<Rightarrow> 'k \<times> 'id list \<Rightarrow> real" where
  "stack_step columnWidth m g =
     (case g of (category, groupAds) \<Rightarrow>
      let count = length groupAds;
          cellSize = baseHeight;
          rows = group_rows columnWidth count;
          stackHeight = real rows * (cellSize + itemGap)
      in max m stackHeight)"

definition maxStackHeight :: "real \<Rightarrow> ('k \<times> 'id list) list \<Rightarrow> real" where
  "maxStackHeight columnWidth groups = foldl (stack_step columnWidth) 0 groups"

text \<open>
  What the second loop (lines 583-628) computes and assigns for one group: the block,
  the rectangles of the items that are shown, and the position of the label.
\<close>

record ('k, 'id) group_layout =
  gl_category :: 'k
  gl_count :: nat
  gl_blockX :: real
  gl_stackTopY :: real
  gl_blockWidth :: real
  gl_blockHeight :: real
  gl_items :: "('id \<times> rect) list"
  gl_label_left :: real
  gl_label_top :: real

definition layout_group ::
    "real \<Rightarrow> real \<Rightarrow> ('id \<rightharpoonup> bool) \<Rightarrow> nat \<times> 'k \<times> 'id list \<Rightarrow> ('k, 'id) group_layout" where
  "layout_group columnWidth maxStack itemElements g =
     (case g of (groupIndex, category, groupAds) \<Rightarrow>
      let labelMargin = 10;
          cellSize = baseHeight;
          count = length groupAds;
          groupCenterX = (real groupIndex + 1 / 2) * columnWidth;
          cols = group_cols columnWidth;
          rows = group_rows columnWidth count;
          blockWidth = real cols * (cellSize + itemGap) - itemGap;
          blockHeight = real rows * (cellSize + itemGap) - itemGap;
          blockX = groupCenterX - blockWidth / 2;
          stackTopY = maxStack - blockHeight
      in \<lparr>gl_category = category, gl_count = count,
          gl_blockX = blockX, gl_stackTopY = stackTopY,
          gl_blockWidth = blockWidth, gl_blockHeight = blockHeight,
          gl_items =
            map (\<lambda>(i, ad). (ad, \<lparr>r_left = blockX + real (i mod cols) * (cellSize + itemGap),
                                  r_top = stackTopY + real (i div cols) * (cellSize + itemGap),
                                  r_width = cellSize, r_height = cellSize\<rparr>))
                (filter (\<lambda>(i, ad). is_shown itemElements ad) (enumerate 0 groupAds)),
          gl_label_left = groupCenterX - 60,
          gl_label_top = maxStack + labelMargin\<rparr>)"

definition applyGroupedLayout ::
    "real \<Rightarrow> ('id \<rightharpoonup> bool) \<Rightarrow> ('k::linorder) \<Rightarrow> ('id \<Rightarrow> 'k option) \<Rightarrow> 'id list
       \<Rightarrow> ('k, 'id) group_layout list" where
  "applyGroupedLayout clientWidth itemElements unknown attr filteredAds =
     (let sorted_groups = sortedGroups unknown attr filteredAds;
          numGroups = length sorted_groups;
          columnWidth = grouped_columnWidth clientWidth numGroups;
          maxStack = maxStackHeight columnWidth sorted_groups
      in map (layout_group columnWidth maxStack itemElements) (enumerate 0 sorted_groups))"

text \<open>The common baseline: \<open>maxStackHeight\<close> as \<open>applyGroupedLayout\<close> computes it.\<close>

definition grouped_baseline ::
    "real \<Rightarrow> ('k::linorder) \<Rightarrow> ('id \<Rightarrow> 'k option) \<Rightarrow> 'id list \<Rightarrow> real" where
  "grouped_baseline clientWidth unknown attr filteredAds =
     (let sorted_groups = sortedGroups unknown attr filteredAds
      in maxStackHeight (grouped_columnWidth clientWidth (length sorted_groups)) sorted_groups)"

text \<open>Seven ads with three keys, for the closed theorems: ad \<open>i\<close> has key \<open>i mod 3\<close>.\<close>

definition attr_mod3 :: "nat \<Rightarrow> nat option" where
  "attr_mod3 i = (if i mod 3 = 0 then None else Some (i mod 3))"

definition ads_seven :: "nat list" where
  "ads_seven = [1, 2, 3, 4, 5, 6, 7]"

definition all_shown :: "nat \<rightharpoonup> bool" where
  "all_shown = (\<lambda>i. Some False)"

section \<open>Animation engine (\<open>PivotAnimator\<close>)\<close>

text \<open>
  An \<open>Animation\<close> object of the Web Animations API, as far as the engine uses it: the
  element it animates and whether it is still running, has finished, or was canceled.
  Animation objects are identified by their index in the list of all animations created
  so far.
\<close>

datatype play_state = Running | Finished | Canceled

record 'e animation =
  anim_target :: 'e
  playState :: play_state

text \<open>
  The state of the engine: \<open>runningAnimations\<close> is the \<open>Map\<close> from elements to
  animations, as the list of its entries in insertion order. \<open>pending\<close> holds the
  \<open>Promise.all(...).then(onComplete)\<close> batches that are not settled yet, each with its
  \<open>onComplete\<close> callback, and \<open>completed\<close> logs the callbacks that were called.
  Changes to element styles are not part of the state.
\<close>

record ('e, 'c) animator =
  runningAnimations :: "('e \<times> nat) list"
  animations :: "'e animation list"
  pending :: "(nat list \<times> 'c) list"
  completed :: "'c list"

definition animator_init :: "('e, 'c) animator" where
  "animator_init = \<lparr>runningAnimations = [], animations = [], pending = [], completed = []\<rparr>"

text \<open>\<open>animation.cancel()\<close>: a running animation becomes canceled; otherwise nothing happens.\<close>

definition animation_cancel :: "nat \<Rightarrow> ('e, 'c) animator \<Rightarrow> ('e, 'c) animator" where
  "animation_cancel a s =
     (if a < length (animations s) \<and> playState (animations s ! a) = Running
      then s\<lparr>animations := (animations s)[a := (animations s ! a)\<lparr>playState := Canceled\<rparr>]\<rparr>
      else s)"

text \<open>\<open>if (this.runningAnimations.has(el)) this.runningAnimations.get(el).cancel()\<close>.\<close>

definition cancel_running :: "'e \<Rightarrow> ('e, 'c) animator \<Rightarrow> ('e, 'c) animator" where
  "cancel_running el s =
     (case map_of (runningAnimations s) el of None \<Rightarrow> s | Some a \<Rightarrow> animation_cancel a s)"

text \<open>
  The statements that \<open>flip\<close> (lines 72-101), \<open>fadeOut\<close> (lines 133-151) and \<open>fadeIn\<close>
  (lines 188-206) share: cancel the running animation of the element, create the new
  animation with \<open>el.animate\<close>, and store it in the map. The result is the new
  animation and the new state.
\<close>

definition start_animation :: "'e \<Rightarrow> ('e, 'c) animator \<Rightarrow> nat \<times> ('e, 'c) animator" where
  "start_animation el s =
     (let s1 = cancel_running el s;
          animation = length (animations s1)
      in (animation,
          s1\<lparr>animations := animations s1 @ [\<lparr>anim_target = el, playState = Running\<rparr>],
             runningAnimations := AList.update el animation (runningAnimations s1)\<rparr>))"

text \<open>
  Settling the \<open>Promise.all\<close> batches: a batch with a canceled animation is rejected and
  dropped (the \<open>catch\<close> ignores it); a batch whose animations have all finished (in
  particular an empty batch) is resolved and its \<open>onComplete\<close> is called.
\<close>

definition batch_rejected :: "('e, 'c) animator \<Rightarrow> nat list \<Rightarrow> bool" where
  "batch_rejected s ids = list_ex (\<lambda>a. playState (animations s ! a) = Canceled) ids"

definition batch_resolved :: "('e, 'c) animator \<Rightarrow> nat list \<Rightarrow> bool" where
  "batch_resolved s ids = list_all (\<lambda>a. playState (animations s ! a) = Finished) ids"

definition settle :: "('e, 'c) animator \<Rightarrow> ('e, 'c) animator" where
  "settle s =
     s\<lparr>pending := filter (\<lambda>(ids, cb). \<not> batch_rejected s ids \<and> \<not> batch_resolved s ids) (pending s),
       completed := completed s
          @ map snd (filter (\<lambda>(ids, cb). \<not> batch_rejected s ids \<and> batch_resolved s ids) (pending s))\<rparr>"

text \<open>
  What \<open>flip\<close> measures on an element: the rectangle of \<open>getBoundingClientRect()\<close> and
  the parsed computed opacity (\<open>None\<close> when \<open>parseFloat\<close> gives NaN).
\<close>

record geometry =
  g_left :: real
  g_top :: real
  g_width :: real
  g_height :: real
  g_opacity :: "real option"

record first_position =
  fp_x :: real
  fp_y :: real
  fp_width :: real
  fp_height :: real
  fp_opacity :: real

definition record_first :: "geometry \<Rightarrow> first_position" where
  "record_first rect =
     \<lparr>fp_x = g_left rect, fp_y = g_top rect, fp_width = g_width rect, fp_height = g_height rect,
      fp_opacity = parse_or (g_opacity rect) 1\<rparr>"

text \<open>The first loop of \<open>flip\<close> (lines 29-41); a null element is \<open>None\<close>.\<close>

definition firstPositions :: "('e \<Rightarrow> geometry) \<Rightarrow> 'e option list \<Rightarrow> ('e \<rightharpoonup> first_position)" where
  "firstPositions rects elements =
     foldl (\<lambda>m el. case el of None \<Rightarrow> m | Some e \<Rightarrow> m(e \<mapsto> record_first (rects e)))
           Map.empty elements"

text \<open>The test of lines 60-70.\<close>

definition flip_skips :: "first_position \<Rightarrow> geometry \<Rightarrow> bool" where
  "flip_skips first lastRect =
     (let lastOpacity = parse_or (g_opacity lastRect) 1;
          deltaX = fp_x first - g_left lastRect;
          deltaY = fp_y first - g_top lastRect;
          deltaW = fp_width first / js_or (g_width lastRect) 1;
          deltaH = fp_height first / js_or (g_height lastRect) 1
      in \<bar>deltaX\<bar> < 1 / 2 \<and> \<bar>deltaY\<bar> < 1 / 2 \<and>
         \<bar>deltaW - 1\<bar> < 1 / 100 \<and> \<bar>deltaH - 1\<bar> < 1 / 100 \<and>
         \<bar>fp_opacity first - lastOpacity\<bar> < 1 / 100)"

text \<open>One round of the second loop of \<open>flip\<close> (lines 52-109).\<close>

definition flip_element ::
    "('e \<rightharpoonup> first_position) \<Rightarrow> ('e \<Rightarrow> geometry) \<Rightarrow> nat list \<times> ('e, 'c) animator
       \<Rightarrow> 'e option \<Rightarrow> nat list \<times> ('e, 'c) animator" where
  "flip_element firsts lasts acc el =
     (case el of
        None \<Rightarrow> acc
      | Some e \<Rightarrow>
          (case firsts e of
             None \<Rightarrow> acc
           | Some first \<Rightarrow>
               if flip_skips first (lasts e) then acc
               else (case start_animation e (snd acc) of
                       (animation, s') \<Rightarrow> (fst acc @ [animation], s'))))"

text \<open>
  \<open>flip(elements, layoutChange, {onComplete})\<close>: \<open>rects\<close> gives the geometry of every
  element before the call and \<open>layoutChange rects\<close> the geometry after the layout change.
  The result is the list of the animations started and the new state.
\<close>

definition flip ::
    "'e option list \<Rightarrow> (('e \<Rightarrow> geometry) \<Rightarrow> ('e \<Rightarrow> geometry)) \<Rightarrow> 'c \<Rightarrow> ('e \<Rightarrow> geometry)
       \<Rightarrow> ('e, 'c) animator \<Rightarrow> nat list \<times> ('e, 'c) animator" where
  "flip elements layoutChange onComplete rects s =
     (let firsts = firstPositions rects elements;
          lasts = layoutChange rects;
          (anims, s1) = foldl (flip_element firsts lasts) ([], s) elements
      in (anims, settle (s1\<lparr>pending := pending s1 @ [(anims, onComplete)]\<rparr>)))"












text \<open>Concrete geometries for the closed theorems: an element of no size, unchanged.\<close>

definition geometry_zero :: geometry where
  "geometry_zero = \<lparr>g_left = 0, g_top = 0, g_width = 0, g_height = 0, g_opacity = Some 1\<rparr>"

definition dom_hidden :: "nat \<Rightarrow> geometry" where
  "dom_hidden e = geometry_zero"



section \<open>Properties of the uniform grid layout\<close>

lemmas grid_eval = grid_search_def grid_step_def cand_rows_def cand_cellSize_def
  cand_wastedSpace_def less_fit_def best_init_def itemGap_def padding_def admissible_def
  exact_def upt_rec Let_def

lemma grid_step_alt:
  "grid_step fl cw ch n b c =
     (if admissible fl cw ch n c \<and> less_fit (cand_wastedSpace fl cw ch n c) (bestFit b)
      then cand_best fl cw ch n c else b)"
  by (simp add: grid_step_def admissible_def cand_best_def Let_def)

lemma selected_snoc:
  assumes sel: "selected fl cw ch n cs b" and lt: "\<forall>c'\<in>set cs. c' < c"
  shows "selected fl cw ch n (cs @ [c]) (grid_step fl cw ch n b c)"
proof (cases "\<exists>c'\<in>set cs. admissible fl cw ch n c'")
  case False
  with sel have b: "b = best_init" by (simp add: selected_def)
  show ?thesis
  proof (cases "admissible fl cw ch n c")
    case True
    with False b show ?thesis
      by (auto simp: selected_def grid_step_alt less_fit_def best_init_def cand_best_def)
  next
    case na: False
    with False b show ?thesis
      by (auto simp: selected_def grid_step_alt)
  qed
next
  case True
  with sel have in_cs: "bestCols b \<in> set cs" and adm: "admissible fl cw ch n (bestCols b)"
    and beq: "b = cand_best fl cw ch n (bestCols b)"
    and mn: "\<forall>c'\<in>set cs. admissible fl cw ch n c' \<longrightarrow>
              cand_wastedSpace fl cw ch n (bestCols b) \<le> cand_wastedSpace fl cw ch n c' \<and>
              (cand_wastedSpace fl cw ch n c' = cand_wastedSpace fl cw ch n (bestCols b)
                 \<longrightarrow> bestCols b \<le> c')"
    by (simp_all add: selected_def)
  have fit: "bestFit b = Some (cand_wastedSpace fl cw ch n (bestCols b))"
    using beq by (metis best.select_convs(4) cand_best_def)
  have ex: "\<exists>c'\<in>set (cs @ [c]). admissible fl cw ch n c'" using True by auto
  show ?thesis
  proof (cases "admissible fl cw ch n c \<and>
                cand_wastedSpace fl cw ch n c < cand_wastedSpace fl cw ch n (bestCols b)")
    case upd: True
    then have st: "grid_step fl cw ch n b c = cand_best fl cw ch n c"
      by (simp add: grid_step_alt fit less_fit_def)
    have "\<forall>c'\<in>set cs. admissible fl cw ch n c' \<longrightarrow>
            cand_wastedSpace fl cw ch n c < cand_wastedSpace fl cw ch n c'"
      using mn upd by fastforce
    then show ?thesis
      unfolding selected_def st using ex upd lt
      by (auto simp: cand_best_def)
  next
    case keep: False
    then have st: "grid_step fl cw ch n b c = b"
      by (auto simp: grid_step_alt fit less_fit_def)
    have le: "bestCols b \<le> c" using in_cs lt by auto
    show ?thesis
      unfolding selected_def st using ex in_cs adm beq mn keep le
      by auto
  qed
qed

lemma selected_foldl:
  "sorted_wrt (<) cs \<Longrightarrow> selected fl cw ch n cs (foldl (grid_step fl cw ch n) best_init cs)"
proof (induction cs rule: rev_induct)
  case Nil
  show ?case by (simp add: selected_def)
next
  case (snoc c cs)
  from snoc.prems have s: "sorted_wrt (<) cs" and lt: "\<forall>c'\<in>set cs. c' < c"
    by (auto simp: sorted_wrt_append)
  from selected_snoc [OF snoc.IH [OF s] lt] show ?case by simp
qed

lemma selected_grid_search:
  "selected fl cw ch n [1..<Suc n] (grid_search fl cw ch n)"
  unfolding grid_search_def by (rule selected_foldl) (rule sorted_wrt_upt)

lemma selectedD:
  assumes "selected fl cw ch n cs b" and "c \<in> set cs" and "admissible fl cw ch n c"
  shows "bestCols b \<in> set cs" and "admissible fl cw ch n (bestCols b)"
    and "b = cand_best fl cw ch n (bestCols b)"
    and "cand_wastedSpace fl cw ch n (bestCols b) \<le> cand_wastedSpace fl cw ch n c"
    and "cand_wastedSpace fl cw ch n c = cand_wastedSpace fl cw ch n (bestCols b) \<Longrightarrow> bestCols b \<le> c"
  using assms unfolding selected_def by (auto split: if_splits)

lemma grid_search_fallback:
  assumes "\<forall>c\<in>{1..n}. \<not> admissible fl cw ch n c"
  shows "grid_search fl cw ch n = best_init"
proof -
  have "\<not> (\<exists>c\<in>set [1..<Suc n]. admissible fl cw ch n c)" using assms by auto
  with selected_grid_search [of fl cw ch n] show ?thesis
    unfolding selected_def by (simp only: if_False)
qed

text \<open>
  Claim C1, as amended. Whatever the rounding \<open>fl\<close> of the arithmetic is, the search
  tries every column count in [1, N] with rows = ceil(N / cols) and cell size the
  minimum of the width-derived and the height-derived size, and skips the candidates
  whose cell size is outside [30, 200]. Whenever at least one column count \<open>c\<close> in
  [1, N] is admissible, the selected column count is in [1, N] and admissible, the
  stored rows, cell size and wastage are those computed for the selected column count,
  its computed wasted space is at most that computed for \<open>c\<close>, and when the two computed
  values are equal the selected column count is the smaller one.
\<close>

theorem grid_search_selects_best:
  assumes c: "c \<in> {1..totalItems}" and adm: "admissible fl cw ch totalItems c"
  shows "bestCols (grid_search fl cw ch totalItems) \<in> {1..totalItems} \<and>
         admissible fl cw ch totalItems (bestCols (grid_search fl cw ch totalItems)) \<and>
         30 \<le> bestCellSize (grid_search fl cw ch totalItems) \<and>
         bestCellSize (grid_search fl cw ch totalItems) \<le> 200 \<and>
         bestRows (grid_search fl cw ch totalItems)
           = nat \<lceil>fl (real totalItems / real (bestCols (grid_search fl cw ch totalItems)))\<rceil> \<and>
         bestCellSize (grid_search fl cw ch totalItems)
           = cand_cellSize fl cw ch totalItems (bestCols (grid_search fl cw ch totalItems)) \<and>
         bestFit (grid_search fl cw ch totalItems)
           = Some (cand_wastedSpace fl cw ch totalItems (bestCols (grid_search fl cw ch totalItems))) \<and>
         cand_wastedSpace fl cw ch totalItems (bestCols (grid_search fl cw ch totalItems))
           \<le> cand_wastedSpace fl cw ch totalItems c \<and>
         (cand_wastedSpace fl cw ch totalItems c
            = cand_wastedSpace fl cw ch totalItems (bestCols (grid_search fl cw ch totalItems))
          \<longrightarrow> bestCols (grid_search fl cw ch totalItems) \<le> c)"
proof -
  let ?b = "grid_search fl cw ch totalItems"
  have cin: "c \<in> set [1..<Suc totalItems]" using c by auto
  have sel: "selected fl cw ch totalItems [1..<Suc totalItems] ?b"
    by (rule selected_grid_search)
  note d = selectedD [OF sel cin adm]
  have in_cs: "bestCols ?b \<in> set [1..<Suc totalItems]" by (rule d(1))
  have badm: "admissible fl cw ch totalItems (bestCols ?b)" by (rule d(2))
  have beq: "?b = cand_best fl cw ch totalItems (bestCols ?b)" by (rule d(3))
  have rows: "bestRows ?b = cand_rows fl totalItems (bestCols ?b)"
    using beq by (metis best.select_convs(3) cand_best_def)
  have size: "bestCellSize ?b = cand_cellSize fl cw ch totalItems (bestCols ?b)"
    using beq by (metis best.select_convs(1) cand_best_def)
  have fit: "bestFit ?b = Some (cand_wastedSpace fl cw ch totalItems (bestCols ?b))"
    using beq by (metis best.select_convs(4) cand_best_def)
  have rng: "30 \<le> bestCellSize ?b \<and> bestCellSize ?b \<le> 200"
    using badm size by (simp add: admissible_def)
  have best: "cand_wastedSpace fl cw ch totalItems (bestCols ?b) \<le> cand_wastedSpace fl cw ch totalItems c \<and>
           (cand_wastedSpace fl cw ch totalItems c = cand_wastedSpace fl cw ch totalItems (bestCols ?b)
              \<longrightarrow> bestCols ?b \<le> c)"
    using d(4) d(5) by blast
  from in_cs have "bestCols ?b \<in> {1..totalItems}" by auto
  with badm rng rows size fit best show ?thesis
    by (simp add: cand_rows_def)
qed

text \<open>
  The theorem at 12 items in a 400 x 300 container, with the admissible column count 4,
  in exact arithmetic.
\<close>

theorem grid_search_selects_best_witness:
  "(4::nat) \<in> {1..12} \<and> admissible exact 400 300 12 4 \<and>
   bestCols (grid_search exact 400 300 12) = 4 \<and>
   cand_wastedSpace exact 400 300 12 (bestCols (grid_search exact 400 300 12)) \<le> cand_wastedSpace exact 400 300 12 4"
proof -
  have c: "(4::nat) \<in> {1..12}" by simp
  have adm: "admissible exact 400 300 12 4" by (simp add: grid_eval)
  have cols: "bestCols (grid_search exact 400 300 12) = 4" by (simp add: grid_eval)
  from grid_search_selects_best [OF c adm] c adm cols show ?thesis by simp
qed

text \<open>
  One item in a 1000 x 1000 container: the only candidate, one column, has cell size
  1000 and is skipped, so the column count the layout ends with is not admissible.
  (Every value here is an integer, so exact arithmetic is what the code computes.)
\<close>

theorem grid_search_no_admissible_counterexample:
  "bestCols (grid_search exact 1000 1000 1) = 1 \<and> cand_cellSize exact 1000 1000 1 1 = 1000 \<and>
   \<not> admissible exact 1000 1000 1 (bestCols (grid_search exact 1000 1000 1))"
  by (simp add: grid_eval)

text \<open>
  Claim C2, as amended. For 12 visible items in a 400 x 300 container the search
  chooses 4 columns and 3 rows; with the item gap of 4 between cells the cell size is 97
  and the wasted space is 1. (When 400 x 300 is the client size, so that the padding of
  20 on each side leaves 360 x 260, the choice is again 4 columns and 3 rows, with cell
  size 84 and wasted space 12.)
\<close>

theorem grid_twelve_items:
  "grid_search exact 400 300 12 = \<lparr>bestCellSize = 97, bestCols = 4, bestRows = 3, bestFit = Some 1\<rparr> \<and>
   grid_search exact (400 - padding * 2) (300 - padding * 2) 12
     = \<lparr>bestCellSize = 84, bestCols = 4, bestRows = 3, bestFit = Some 12\<rparr>"
  by (simp add: grid_eval)

text \<open>The cell size is not 100 and the wasted space is not zero.\<close>

theorem grid_twelve_items_counterexample:
  "\<not> (bestCellSize (grid_search exact 400 300 12) = 100 \<and> bestFit (grid_search exact 400 300 12) = Some 0)"
  by (simp add: grid_eval)

text \<open>
  Claim C10. When there is at least one visible item and no column count in [1, N] is
  admissible, the search keeps its initial values (cell size 60, one column), and the
  layout assigns every visible item, in order, a position and a size: item \<open>i\<close> is a
  60 x 60 cell in a single column, at the horizontal offset and \<open>i\<close> rows of 60 plus the
  item gap below the vertical offset.
\<close>

theorem grid_fallback_positions:
  assumes vis: "visibleItems = filter (is_shown itemElements) filteredAds"
    and ne: "visibleItems \<noteq> []"
    and none: "\<forall>c\<in>{1..length visibleItems}.
                 \<not> admissible fl (clientWidth - padding * 2) (clientHeight - padding * 2)
                     (length visibleItems) c"
  shows "bestCellSize (grid_search fl (clientWidth - padding * 2) (clientHeight - padding * 2)
                         (length visibleItems)) = 60 \<and>
         bestCols (grid_search fl (clientWidth - padding * 2) (clientHeight - padding * 2)
                         (length visibleItems)) = 1 \<and>
         map fst (applyGridLayout fl clientWidth clientHeight itemElements filteredAds) = visibleItems \<and>
         (\<forall>i<length visibleItems.
            snd (applyGridLayout fl clientWidth clientHeight itemElements filteredAds ! i)
              = \<lparr>r_left = max 0 ((clientWidth - padding * 2 - 60) / 2),
                 r_top = max 0 ((clientHeight - padding * 2 - 60) / 2) + real i * (60 + itemGap),
                 r_width = 60, r_height = 60\<rparr>)"
proof -
  let ?cw = "clientWidth - padding * 2" and ?ch = "clientHeight - padding * 2"
  have fb: "grid_search fl ?cw ?ch (length visibleItems) = best_init"
    using none by (rule grid_search_fallback)
  have len: "length visibleItems \<noteq> 0" using ne by simp
  have lay: "applyGridLayout fl clientWidth clientHeight itemElements filteredAds
      = map (\<lambda>(index, ad). (ad, grid_place (max 0 ((?cw - 60) / 2)) (max 0 ((?ch - 60) / 2)) 60 1 index))
            (enumerate 0 visibleItems)"
    using len fb unfolding applyGridLayout_def vis [symmetric] Let_def
    by (simp add: best_init_def)
  have fst: "map fst (applyGridLayout fl clientWidth clientHeight itemElements filteredAds) = visibleItems"
    unfolding lay by (rule nth_equalityI) (simp_all add: nth_enumerate_eq)
  have pos: "\<forall>i<length visibleItems.
            snd (applyGridLayout fl clientWidth clientHeight itemElements filteredAds ! i)
              = \<lparr>r_left = max 0 ((?cw - 60) / 2),
                 r_top = max 0 ((?ch - 60) / 2) + real i * (60 + itemGap),
                 r_width = 60, r_height = 60\<rparr>"
    unfolding lay by (simp add: nth_enumerate_eq grid_place_def)
  from fb fst pos show ?thesis by (simp add: best_init_def)
qed

text \<open>
  A single item in a container of client size 1040 x 1040 (1000 x 1000 inside the
  padding): it is placed as a 60 x 60 cell, centred.
\<close>

theorem grid_fallback_positions_witness:
  "applyGridLayout exact 1040 1040 (\<lambda>i::nat. Some False) [7]
     = [(7, \<lparr>r_left = 470, r_top = 470, r_width = 60, r_height = 60\<rparr>)]"
proof -
  have vis: "[7::nat] = filter (is_shown (\<lambda>i::nat. Some False)) [7]" by (simp add: is_shown_def)
  have ne: "[7::nat] \<noteq> []" by simp
  have none: "\<forall>c\<in>{1..length [7::nat]}.
                 \<not> admissible exact (1040 - padding * 2) (1040 - padding * 2) (length [7::nat]) c"
    by (simp add: grid_eval)
  from grid_fallback_positions [OF vis ne none]
  have "map fst (applyGridLayout exact 1040 1040 (\<lambda>i::nat. Some False) [7]) = [7]"
    and "snd (applyGridLayout exact 1040 1040 (\<lambda>i::nat. Some False) [7] ! 0)
           = \<lparr>r_left = 470, r_top = 470, r_width = 60, r_height = 60\<rparr>"
    by (simp_all add: padding_def)
  then show ?thesis
    by (cases "applyGridLayout exact 1040 1040 (\<lambda>i::nat. Some False) [7]") auto
qed


section \<open>Properties of the viewport operations\<close>

lemmas viewport_eval = zoom_def zoom_pivot_def constrainPan_def constrain_axis_def
  fitToViewport_def fit_contentWidth_def fit_contentHeight_def parse_or_def js_or_def
  minScale_def maxScale_def Let_def exact_def

lemma constrain_axis_fits:
  "content \<le> container \<Longrightarrow> constrain_axis container content pan = (container - content) / 2"
  by (simp add: constrain_axis_def)

lemma constrain_axis_overflow:
  "container < content \<Longrightarrow>
     constrain_axis container content pan = max (container - content) (min 0 pan)"
  by (auto simp: constrain_axis_def Let_def min_def max_def)

text \<open>
  Claim C6. \<open>constrainPan\<close> leaves the scale alone and treats each axis by itself: when
  the scaled content is no larger than the container on an axis, the pan offset on that
  axis is half the difference (the content is centred); otherwise the offset is the old
  one clamped into [container - content, 0], so the leading edge of the content is at
  or before the leading edge of the container and its trailing edge is at or after the
  trailing edge of the container.
\<close>

theorem constrainPan_centers_or_clamps:
  "scale (constrainPan d v) = scale v \<and>
   (parse_or (wrapper_styleWidth d) (wrapper_offsetWidth d) * scale v \<le> container_clientWidth d \<longrightarrow>
      panOffset_x (constrainPan d v)
        = (container_clientWidth d - parse_or (wrapper_styleWidth d) (wrapper_offsetWidth d) * scale v) / 2) \<and>
   (container_clientWidth d < parse_or (wrapper_styleWidth d) (wrapper_offsetWidth d) * scale v \<longrightarrow>
      panOffset_x (constrainPan d v) \<le> 0 \<and>
      container_clientWidth d
        \<le> panOffset_x (constrainPan d v) + parse_or (wrapper_styleWidth d) (wrapper_offsetWidth d) * scale v \<and>
      panOffset_x (constrainPan d v)
        = max (container_clientWidth d - parse_or (wrapper_styleWidth d) (wrapper_offsetWidth d) * scale v)
              (min 0 (panOffset_x v))) \<and>
   (parse_or (wrapper_styleHeight d) (wrapper_offsetHeight d) * scale v \<le> container_clientHeight d \<longrightarrow>
      panOffset_y (constrainPan d v)
        = (container_clientHeight d - parse_or (wrapper_styleHeight d) (wrapper_offsetHeight d) * scale v) / 2) \<and>
   (container_clientHeight d < parse_or (wrapper_styleHeight d) (wrapper_offsetHeight d) * scale v \<longrightarrow>
      panOffset_y (constrainPan d v) \<le> 0 \<and>
      container_clientHeight d
        \<le> panOffset_y (constrainPan d v) + parse_or (wrapper_styleHeight d) (wrapper_offsetHeight d) * scale v \<and>
      panOffset_y (constrainPan d v)
        = max (container_clientHeight d - parse_or (wrapper_styleHeight d) (wrapper_offsetHeight d) * scale v)
              (min 0 (panOffset_y v)))"
proof -
  have x: "panOffset_x (constrainPan d v)
      = constrain_axis (container_clientWidth d)
          (parse_or (wrapper_styleWidth d) (wrapper_offsetWidth d) * scale v) (panOffset_x v)"
    by (simp add: constrainPan_def Let_def)
  have y: "panOffset_y (constrainPan d v)
      = constrain_axis (container_clientHeight d)
          (parse_or (wrapper_styleHeight d) (wrapper_offsetHeight d) * scale v) (panOffset_y v)"
    by (simp add: constrainPan_def Let_def)
  have s: "scale (constrainPan d v) = scale v"
    by (simp add: constrainPan_def Let_def)
  show ?thesis
    unfolding x y s
    by (auto simp: constrain_axis_fits constrain_axis_overflow)
qed

text \<open>
  A 360 x 100 wrapper at scale 2 in a 400 x 300 container: the content overflows
  horizontally (the offset is clamped to 0, or to -320 from the far left) and fits
  vertically (the offset is centred at 50).
\<close>

theorem constrainPan_centers_or_clamps_witness:
  "panOffset_x (constrainPan dom_wide \<lparr>scale = 2, panOffset_x = 50, panOffset_y = 7\<rparr>) = 0 \<and>
   panOffset_y (constrainPan dom_wide \<lparr>scale = 2, panOffset_x = 50, panOffset_y = 7\<rparr>) = 50 \<and>
   panOffset_x (constrainPan dom_wide \<lparr>scale = 2, panOffset_x = - 900, panOffset_y = 7\<rparr>) = - 320"
proof -
  have w: "container_clientWidth dom_wide
             < parse_or (wrapper_styleWidth dom_wide) (wrapper_offsetWidth dom_wide) * 2"
    and h: "parse_or (wrapper_styleHeight dom_wide) (wrapper_offsetHeight dom_wide) * 2
             \<le> container_clientHeight dom_wide"
    by (simp_all add: dom_wide_def parse_or_def js_or_def)
  from constrainPan_centers_or_clamps [of dom_wide "\<lparr>scale = 2, panOffset_x = 50, panOffset_y = 7\<rparr>"]
       constrainPan_centers_or_clamps [of dom_wide "\<lparr>scale = 2, panOffset_x = - 900, panOffset_y = 7\<rparr>"]
       w h
  show ?thesis
    by (simp add: dom_wide_def parse_or_def js_or_def)
qed


subsection \<open>Rounding errors of \<open>zoom\<close>\<close>



lemma rounding_exact: "rounding 0 exact"
  by (simp add: rounding_def exact_def)



































text \<open>
  Claim C9, as amended. \<open>fitToViewport\<close> has no failure mode: it divides only by
  content sizes that are not zero, its scale is always within [minScale, maxScale], and
  its translation is (container - content * scale) / 2 on each axis. The scale is 1
  when the content size is zero on an axis, and the result is scale 1 with translation
  0 when it is zero on both (the wrapper has no size of its own and the container size
  is zero). When the content size is positive and the container width or height is zero
  or negative, the scale is minScale and the translation centres the content at that
  scale.
\<close>

theorem fitToViewport_degenerate:
  "minScale \<le> scale (fitToViewport d v) \<and> scale (fitToViewport d v) \<le> maxScale \<and>
   panOffset_x (fitToViewport d v)
     = (container_clientWidth d - fit_contentWidth d * scale (fitToViewport d v)) / 2 \<and>
   panOffset_y (fitToViewport d v)
     = (container_clientHeight d - fit_contentHeight d * scale (fitToViewport d v)) / 2 \<and>
   (fit_contentWidth d = 0 \<or> fit_contentHeight d = 0 \<longrightarrow> scale (fitToViewport d v) = 1) \<and>
   (fit_contentWidth d = 0 \<and> fit_contentHeight d = 0 \<longrightarrow>
      fitToViewport d v = \<lparr>scale = 1, panOffset_x = 0, panOffset_y = 0\<rparr>) \<and>
   (0 < fit_contentWidth d \<and> 0 < fit_contentHeight d \<and>
    (container_clientWidth d \<le> 0 \<or> container_clientHeight d \<le> 0) \<longrightarrow>
      fitToViewport d v
        = \<lparr>scale = minScale,
           panOffset_x = (container_clientWidth d - fit_contentWidth d * minScale) / 2,
           panOffset_y = (container_clientHeight d - fit_contentHeight d * minScale) / 2\<rparr>)"
proof -
  have rng: "minScale \<le> scale (fitToViewport d v) \<and> scale (fitToViewport d v) \<le> maxScale"
    by (simp add: fitToViewport_def Let_def minScale_def maxScale_def)
  have px: "panOffset_x (fitToViewport d v)
     = (container_clientWidth d - fit_contentWidth d * scale (fitToViewport d v)) / 2"
    by (simp add: fitToViewport_def Let_def)
  have py: "panOffset_y (fitToViewport d v)
     = (container_clientHeight d - fit_contentHeight d * scale (fitToViewport d v)) / 2"
    by (simp add: fitToViewport_def Let_def)
  have one: "scale (fitToViewport d v) = 1" if "fit_contentWidth d = 0 \<or> fit_contentHeight d = 0"
    using that by (auto simp: fitToViewport_def Let_def minScale_def maxScale_def)
  have zero: "fitToViewport d v = \<lparr>scale = 1, panOffset_x = 0, panOffset_y = 0\<rparr>"
    if z: "fit_contentWidth d = 0 \<and> fit_contentHeight d = 0"
  proof -
    from z have "container_clientWidth d = 0" and "container_clientHeight d = 0"
      by (auto simp: fit_contentWidth_def fit_contentHeight_def js_or_def split: if_splits)
    with z show ?thesis
      by (simp add: fitToViewport_def Let_def minScale_def maxScale_def)
  qed
  have neg: "scale (fitToViewport d v) = minScale"
    if p: "0 < fit_contentWidth d \<and> 0 < fit_contentHeight d \<and>
           (container_clientWidth d \<le> 0 \<or> container_clientHeight d \<le> 0)"
  proof -
    from p have "(container_clientWidth d - 40) / fit_contentWidth d < 0
                 \<or> (container_clientHeight d - 40) / fit_contentHeight d < 0"
      by (auto simp: divide_neg_pos)
    then have "min ((container_clientWidth d - 40) / fit_contentWidth d)
                   ((container_clientHeight d - 40) / fit_contentHeight d) < 0"
      by auto
    then show ?thesis
      using p by (simp add: fitToViewport_def Let_def minScale_def maxScale_def)
  qed
  have negv: "fitToViewport d v
        = \<lparr>scale = minScale,
           panOffset_x = (container_clientWidth d - fit_contentWidth d * minScale) / 2,
           panOffset_y = (container_clientHeight d - fit_contentHeight d * minScale) / 2\<rparr>"
    if p: "0 < fit_contentWidth d \<and> 0 < fit_contentHeight d \<and>
           (container_clientWidth d \<le> 0 \<or> container_clientHeight d \<le> 0)"
    using neg [OF p] px py by (simp add: viewport.equality)
  from rng px py one zero negv show ?thesis by blast
qed

text \<open>A 0 x 0 container around a 100 x 100 wrapper.\<close>

theorem fitToViewport_degenerate_witness:
  "fitToViewport dom_zero \<lparr>scale = 1, panOffset_x = 0, panOffset_y = 0\<rparr>
     = \<lparr>scale = 1 / 10, panOffset_x = - 5, panOffset_y = - 5\<rparr>"
proof -
  have p: "0 < fit_contentWidth dom_zero \<and> 0 < fit_contentHeight dom_zero \<and>
           (container_clientWidth dom_zero \<le> 0 \<or> container_clientHeight dom_zero \<le> 0)"
    by (simp add: dom_zero_def fit_contentWidth_def fit_contentHeight_def parse_or_def js_or_def)
  from fitToViewport_degenerate [of dom_zero "\<lparr>scale = 1, panOffset_x = 0, panOffset_y = 0\<rparr>"] p
  show ?thesis
    by (simp add: dom_zero_def fit_contentWidth_def fit_contentHeight_def parse_or_def js_or_def
        minScale_def)
qed

text \<open>
  With a 0 x 0 container and a 100 x 100 wrapper the scale is 1/10 and the translation
  is (-5, -5), not scale 1 and translation 0.
\<close>

theorem fitToViewport_zero_container_counterexample:
  "scale (fitToViewport dom_zero \<lparr>scale = 1, panOffset_x = 0, panOffset_y = 0\<rparr>) = 1 / 10 \<and>
   panOffset_x (fitToViewport dom_zero \<lparr>scale = 1, panOffset_x = 0, panOffset_y = 0\<rparr>) = - 5 \<and>
   panOffset_y (fitToViewport dom_zero \<lparr>scale = 1, panOffset_x = 0, panOffset_y = 0\<rparr>) = - 5"
  by (simp add: dom_zero_def viewport_eval)

section \<open>Properties of filtering\<close>

lemma ad_matches_foldl:
  "foldl (\<lambda>matches (field, values).
              if length values > 0 \<and> \<not> (ad_field ad field \<in> set values) then False else matches)
         b activeFilters
     = (b \<and> (\<forall>(field, values)\<in>set activeFilters. values \<noteq> [] \<longrightarrow> ad_field ad field \<in> set values))"
  by (induction activeFilters arbitrary: b) auto

lemma ad_matches_iff:
  "ad_matches activeFilters ad
     = (\<forall>(field, values)\<in>set activeFilters. values \<noteq> [] \<longrightarrow> ad_field ad field \<in> set values)"
  unfolding ad_matches_def ad_matches_foldl by simp

lemma matchingIds_foldl:
  "foldl (\<lambda>ids ad. if ad_matches activeFilters ad then insert (ad_id ad) ids else ids) S ads
     = S \<union> ad_id ` {ad \<in> set ads. ad_matches activeFilters ad}"
  by (induction ads arbitrary: S) auto

lemma matchingIds_eq:
  "matchingIds activeFilters ads = ad_id ` {ad \<in> set ads. ad_matches activeFilters ad}"
  unfolding matchingIds_def by (simp add: matchingIds_foldl)

lemma set_insert_cmp: "set (insert_cmp cmp x xs) = insert x (set xs)"
  by (induction xs) auto

lemma set_js_sort: "set (js_sort cmp xs) = set xs"
  unfolding js_sort_def by (induction xs) (simp_all add: set_insert_cmp)

lemma applyFilters_member:
  assumes "distinct (map ad_id ads)"
  shows "(ad \<in> set (applyFilters activeFilters cmp ads))
           = (ad \<in> set ads \<and> ad_matches activeFilters ad)"
proof -
  have inj: "inj_on ad_id (set ads)" using assms by (simp add: distinct_map)
  have "(ad \<in> set (applyFilters activeFilters cmp ads))
          = (ad \<in> set ads \<and> ad_id ad \<in> ad_id ` {a \<in> set ads. ad_matches activeFilters a})"
    by (simp add: applyFilters_def Let_def set_js_sort matchingIds_eq)
  also have "\<dots> = (ad \<in> set ads \<and> ad_matches activeFilters ad)"
    using inj by (auto dest: inj_onD)
  finally show ?thesis .
qed

lemma viewer_keep_iff:
  "viewer_keep fl ad =
     ((products fl \<noteq> [] \<longrightarrow> va_product ad \<in> set (products fl)) \<and>
      (sizes fl \<noteq> [] \<longrightarrow> va_size ad \<in> set (sizes fl)) \<and>
      (topics fl \<noteq> [] \<longrightarrow> va_topic ad \<in> set (topics fl)) \<and>
      (types fl \<noteq> [] \<longrightarrow> va_type ad \<in> set (types fl)) \<and>
      (qualities fl \<noteq> [] \<longrightarrow> va_quality ad \<in> set (qualities fl)) \<and>
      (problemsOnly fl \<longrightarrow> va_issue ad))"
  unfolding viewer_keep_def by simp

text \<open>
  Claim C8, as amended. In \<open>PivotApp\<close>, for every list of ads with distinct ids and
  every filter state, an ad is in the visible set exactly when it is one of the ads and,
  for every attribute with a non-empty allow-list, its value for that attribute is in
  the list (AND across attributes, OR within a list, an empty list being no
  constraint); the sort comparator plays no part. In \<open>AdViewer\<close> the same holds for its
  five allow-lists, with one more condition: when the problems-only box is checked, the
  ad has an issue.
\<close>

theorem visible_set_membership:
  assumes "distinct (map ad_id ads)"
  shows "(ad \<in> set (applyFilters activeFilters cmp ads))
           = (ad \<in> set ads \<and>
              (\<forall>(field, values)\<in>set activeFilters.
                  values \<noteq> [] \<longrightarrow> ad_field ad field \<in> set values)) \<and>
         (vad \<in> set (viewer_applyFilters fl vads))
           = (vad \<in> set vads \<and>
              (products fl \<noteq> [] \<longrightarrow> va_product vad \<in> set (products fl)) \<and>
              (sizes fl \<noteq> [] \<longrightarrow> va_size vad \<in> set (sizes fl)) \<and>
              (topics fl \<noteq> [] \<longrightarrow> va_topic vad \<in> set (topics fl)) \<and>
              (types fl \<noteq> [] \<longrightarrow> va_type vad \<in> set (types fl)) \<and>
              (qualities fl \<noteq> [] \<longrightarrow> va_quality vad \<in> set (qualities fl)) \<and>
              (problemsOnly fl \<longrightarrow> va_issue vad))"
proof -
  have p: "(ad \<in> set (applyFilters activeFilters cmp ads))
           = (ad \<in> set ads \<and>
              (\<forall>(field, values)\<in>set activeFilters.
                  values \<noteq> [] \<longrightarrow> ad_field ad field \<in> set values))"
    using applyFilters_member [OF assms] by (simp add: ad_matches_iff)
  have v: "(vad \<in> set (viewer_applyFilters fl vads)) = (vad \<in> set vads \<and> viewer_keep fl vad)"
    by (simp add: viewer_applyFilters_def)
  show ?thesis
    unfolding p v viewer_keep_iff by simp
qed

text \<open>
  Two ads and the allow-list Auto, Travel for the vertical (none for the size): the ad
  of vertical Auto is visible and the ad of vertical Retail is not.
\<close>

theorem visible_set_membership_witness:
  "ad_a \<in> set (applyFilters filters_auto (\<lambda>a b. 0) [ad_a, ad_b]) \<and>
   ad_b \<notin> set (applyFilters filters_auto (\<lambda>a b. 0) [ad_a, ad_b])"
proof -
  have d: "distinct (map ad_id [ad_a, ad_b])"
    by (simp add: ad_a_def ad_b_def)
  have a: "ad_a \<in> set [ad_a, ad_b] \<and>
      (\<forall>(field, values)\<in>set filters_auto. values \<noteq> [] \<longrightarrow> ad_field ad_a field \<in> set values)"
    by (simp add: ad_a_def filters_auto_def)
  have b: "\<not> (ad_b \<in> set [ad_a, ad_b] \<and>
      (\<forall>(field, values)\<in>set filters_auto. values \<noteq> [] \<longrightarrow> ad_field ad_b field \<in> set values))"
    by (simp add: ad_b_def filters_auto_def)
  from visible_set_membership [OF d, of ad_a filters_auto "\<lambda>a b. 0"] a
  have 1: "ad_a \<in> set (applyFilters filters_auto (\<lambda>a b. 0) [ad_a, ad_b])" by blast
  from visible_set_membership [OF d, of ad_b filters_auto "\<lambda>a b. 0"] b
  have 2: "ad_b \<notin> set (applyFilters filters_auto (\<lambda>a b. 0) [ad_a, ad_b])" by blast
  from 1 2 show ?thesis by simp
qed

text \<open>
  In \<open>AdViewer\<close>, with every allow-list empty and the problems-only box checked, an ad
  without an issue is not in the visible set.
\<close>

theorem problems_only_counterexample:
  "viewer_ad_ok \<notin> set (viewer_applyFilters filters_problems [viewer_ad_ok]) \<and>
   products filters_problems = [] \<and> sizes filters_problems = [] \<and> topics filters_problems = [] \<and>
   types filters_problems = [] \<and> qualities filters_problems = []"
  by (simp add: viewer_applyFilters_def viewer_keep_def filters_problems_def viewer_ad_ok_def)

section \<open>Properties of the grouped layout\<close>

lemma ceiling_rows:
  assumes "0 < cols" and "i < count"
  shows "i div cols < nat \<lceil>real count / real cols\<rceil>"
proof -
  have "real (i div cols) * real cols \<le> real i"
    by (metis of_nat_mult of_nat_le_iff div_times_less_eq_dividend)
  also have "\<dots> < real count" using assms(2) by simp
  finally have "real (i div cols) < real count / real cols"
    using assms(1) by (simp add: pos_less_divide_eq)
  also have "\<dots> \<le> real_of_int \<lceil>real count / real cols\<rceil>" by (rule le_of_int_ceiling)
  finally have "int (i div cols) < \<lceil>real count / real cols\<rceil>" by linarith
  then show ?thesis by linarith
qed

lemma ceiling_rows_last:
  assumes "0 < cols" and "0 < count"
  shows "nat \<lceil>real count / real cols\<rceil> = (count - 1) div cols + 1"
proof -
  let ?q = "(count - 1) div cols"
  have lt: "?q < nat \<lceil>real count / real cols\<rceil>"
    using assms by (intro ceiling_rows) auto
  have "count - 1 < (?q + 1) * cols"
    using assms(1) by (metis Suc_eq_plus1 dividend_less_div_times mult.commute mult_Suc)
  then have "count \<le> (?q + 1) * cols" using assms(2) by linarith
  then have "real count \<le> real ((?q + 1) * cols)" by (simp only: of_nat_le_iff)
  then have "real count / real cols \<le> real (?q + 1)"
    using assms(1) by (simp add: pos_divide_le_eq algebra_simps)
  then have "\<lceil>real count / real cols\<rceil> \<le> int (?q + 1)"
    by (simp add: ceiling_le_iff)
  then have "nat \<lceil>real count / real cols\<rceil> \<le> ?q + 1" by linarith
  with lt show ?thesis by linarith
qed

lemma group_cols_pos: "0 < group_cols columnWidth"
  by (simp add: group_cols_def Let_def)


lemma in_set_enumerate_map:
  assumes "g \<in> set (map f (enumerate 0 xs))"
  shows "\<exists>i<length xs. g = f (i, xs ! i)"
proof -
  from assms obtain p where p: "p \<in> set (enumerate 0 xs)" and g: "g = f p" by auto
  from p obtain i where "i < length xs" and "p = (i, xs ! i)"
    by (auto simp: in_set_conv_nth nth_enumerate_eq)
  with g show ?thesis by blast
qed

lemma stack_step_ge: "m \<le> foldl (stack_step columnWidth) m groups"
proof (induction groups arbitrary: m)
  case Nil
  show ?case by simp
next
  case (Cons g groups)
  have "m \<le> stack_step columnWidth m g"
    by (cases g) (simp add: stack_step_def Let_def)
  also have "\<dots> \<le> foldl (stack_step columnWidth) (stack_step columnWidth m g) groups"
    by (rule Cons.IH)
  finally show ?case by simp
qed

lemma stack_step_upper:
  "(category, groupAds) \<in> set groups \<Longrightarrow>
     real (group_rows columnWidth (length groupAds)) * (baseHeight + itemGap)
       \<le> foldl (stack_step columnWidth) m groups"
proof (induction groups arbitrary: m)
  case Nil
  then show ?case by simp
next
  case (Cons g groups)
  show ?case
  proof (cases "(category, groupAds) = g")
    case True
    have "real (group_rows columnWidth (length groupAds)) * (baseHeight + itemGap)
            \<le> stack_step columnWidth m g"
      unfolding True [symmetric] by (simp add: stack_step_def Let_def)
    also have "\<dots> \<le> foldl (stack_step columnWidth) (stack_step columnWidth m g) groups"
      by (rule stack_step_ge)
    finally show ?thesis by simp
  next
    case False
    with Cons.prems have "(category, groupAds) \<in> set groups" by simp
    from Cons.IH [OF this] show ?thesis by simp
  qed
qed

lemma stack_step_attained:
  "foldl (stack_step columnWidth) m groups = m
   \<or> (\<exists>(category, groupAds)\<in>set groups.
        foldl (stack_step columnWidth) m groups
          = real (group_rows columnWidth (length groupAds)) * (baseHeight + itemGap))"
proof (induction groups arbitrary: m)
  case Nil
  then show ?case by simp
next
  case (Cons g groups)
  obtain c ads where g: "g = (c, ads)" by (cases g)
  have step: "stack_step columnWidth m g = m
      \<or> stack_step columnWidth m g = real (group_rows columnWidth (length ads)) * (baseHeight + itemGap)"
    by (auto simp: g stack_step_def Let_def max_def)
  from Cons.IH [of "stack_step columnWidth m g"] step show ?case
    by (auto simp: g)
qed

lemma maxStackHeight_upper:
  "(category, groupAds) \<in> set groups \<Longrightarrow>
     real (group_rows columnWidth (length groupAds)) * (baseHeight + itemGap)
       \<le> maxStackHeight columnWidth groups"
  unfolding maxStackHeight_def by (rule stack_step_upper)

lemma stack_nonneg: "0 \<le> real n * (baseHeight + itemGap)"
  by (simp add: baseHeight_def itemGap_def)

lemma maxStackHeight_attained:
  assumes "groups \<noteq> []"
  shows "\<exists>(category, groupAds)\<in>set groups.
           maxStackHeight columnWidth groups
             = real (group_rows columnWidth (length groupAds)) * (baseHeight + itemGap)"
proof -
  from stack_step_attained [of columnWidth 0 groups]
  consider (zero) "maxStackHeight columnWidth groups = 0"
    | (att) "\<exists>(category, groupAds)\<in>set groups.
           maxStackHeight columnWidth groups
             = real (group_rows columnWidth (length groupAds)) * (baseHeight + itemGap)"
    unfolding maxStackHeight_def by blast
  then show ?thesis
  proof cases
    case zero
    from assms obtain c ads where in_g: "(c, ads) \<in> set groups"
      by (cases groups) auto
    from maxStackHeight_upper [OF in_g, of columnWidth] zero
         stack_nonneg [of "group_rows columnWidth (length ads)"]
    have "maxStackHeight columnWidth groups
            = real (group_rows columnWidth (length ads)) * (baseHeight + itemGap)"
      by linarith
    with in_g show ?thesis by blast
  next
    case att
    then show ?thesis .
  qed
qed

lemma distinct_groups_push:
  "distinct (map fst groups) \<Longrightarrow> distinct (map fst (groups_push groups key ad))"
  by (auto simp: groups_push_def distinct_update map_of_eq_None_iff split: option.splits)

lemma distinct_foldl_groups_push:
  "distinct (map fst groups) \<Longrightarrow>
     distinct (map fst (foldl (\<lambda>groups ad. groups_push groups (k ad) ad) groups ads))"
  by (induction ads arbitrary: groups) (simp_all add: distinct_groups_push)

lemma distinct_build_groups: "distinct (map fst (build_groups unknown attr ads))"
  unfolding build_groups_def by (rule distinct_foldl_groups_push) simp

lemma distinct_map_sort_key:
  "distinct (map f (sort_key f xs)) = distinct (map f xs)"
  by (induction xs) (simp_all add: distinct_insort_key)

lemma sortedGroups_strict: "sorted_wrt (<) (map fst (sortedGroups unknown attr ads))"
  unfolding sortedGroups_def strict_sorted_iff
  by (simp add: distinct_map_sort_key distinct_build_groups)


lemma set_alist_update_subset:
  "set (AList.update k v al) \<subseteq> insert (k, v) (set al)"
  by (induction al) auto

lemma groups_push_members:
  assumes "\<forall>(k, l)\<in>set groups. l \<noteq> [] \<and> set l \<subseteq> A" and "ad \<in> A"
  shows "\<forall>(k, l)\<in>set (groups_push groups key ad). l \<noteq> [] \<and> set l \<subseteq> A"
proof (cases "map_of groups key")
  case None
  with assms show ?thesis by (auto simp: groups_push_def)
next
  case (Some l)
  then have "(key, l) \<in> set groups" by (rule map_of_SomeD)
  with assms have l: "l \<noteq> [] \<and> set l \<subseteq> A" by auto
  have sub: "set (AList.update key (l @ [ad]) groups) \<subseteq> insert (key, l @ [ad]) (set groups)"
    by (rule set_alist_update_subset)
  have "l' \<noteq> [] \<and> set l' \<subseteq> A" if "(k', l') \<in> set (AList.update key (l @ [ad]) groups)" for k' l'
  proof -
    from that sub have "(k', l') = (key, l @ [ad]) \<or> (k', l') \<in> set groups" by blast
    then show ?thesis
    proof
      assume "(k', l') = (key, l @ [ad])"
      with l assms(2) show ?thesis by auto
    next
      assume "(k', l') \<in> set groups"
      with assms(1) show ?thesis by blast
    qed
  qed
  then show ?thesis
    unfolding groups_push_def Some by auto
qed

lemma foldl_groups_push_members:
  assumes "\<forall>(k, l)\<in>set groups. l \<noteq> [] \<and> set l \<subseteq> A" and "set ads \<subseteq> A"
  shows "\<forall>(k, l)\<in>set (foldl (\<lambda>groups ad. groups_push groups (f ad) ad) groups ads).
           l \<noteq> [] \<and> set l \<subseteq> A"
  using assms
proof (induction ads arbitrary: groups)
  case Nil
  then show ?case by simp
next
  case (Cons a ads)
  from Cons.prems have "\<forall>(k, l)\<in>set (groups_push groups (f a) a). l \<noteq> [] \<and> set l \<subseteq> A"
    by (intro groups_push_members) auto
  from Cons.IH [OF this] Cons.prems(2) show ?case by simp
qed

lemma sortedGroups_members:
  assumes "(k, l) \<in> set (sortedGroups unknown attr ads)"
  shows "l \<noteq> [] \<and> set l \<subseteq> set ads"
proof -
  have "\<forall>(k, l)\<in>set (build_groups unknown attr ads). l \<noteq> [] \<and> set l \<subseteq> set ads"
    unfolding build_groups_def by (rule foldl_groups_push_members) simp_all
  with assms show ?thesis by (auto simp: sortedGroups_def)
qed

lemma layout_group_in:
  assumes "g \<in> set (applyGroupedLayout clientWidth itemElements unknown attr filteredAds)"
  obtains i category groupAds where
    "i < length (sortedGroups unknown attr filteredAds)"
    "sortedGroups unknown attr filteredAds ! i = (category, groupAds)"
    "g = layout_group
           (grouped_columnWidth clientWidth (length (sortedGroups unknown attr filteredAds)))
           (grouped_baseline clientWidth unknown attr filteredAds) itemElements
           (i, category, groupAds)"
proof -
  from assms have "g \<in> set (map (layout_group
           (grouped_columnWidth clientWidth (length (sortedGroups unknown attr filteredAds)))
           (grouped_baseline clientWidth unknown attr filteredAds) itemElements)
        (enumerate 0 (sortedGroups unknown attr filteredAds)))"
    by (simp add: applyGroupedLayout_def grouped_baseline_def Let_def)
  from in_set_enumerate_map [OF this] obtain i where
    i: "i < length (sortedGroups unknown attr filteredAds)" and
    g: "g = layout_group
           (grouped_columnWidth clientWidth (length (sortedGroups unknown attr filteredAds)))
           (grouped_baseline clientWidth unknown attr filteredAds) itemElements
           (i, sortedGroups unknown attr filteredAds ! i)"
    by blast
  obtain category groupAds where "sortedGroups unknown attr filteredAds ! i = (category, groupAds)"
    by (cases "sortedGroups unknown attr filteredAds ! i")
  with i g that show ?thesis by simp
qed

lemma layout_group_bottom:
  "gl_stackTopY (layout_group columnWidth Y itemElements (i, category, groupAds))
     + gl_blockHeight (layout_group columnWidth Y itemElements (i, category, groupAds)) = Y"
  by (simp add: layout_group_def Let_def)

lemma layout_group_label_top:
  "gl_label_top (layout_group columnWidth Y itemElements (i, category, groupAds)) = Y + 10"
  by (simp add: layout_group_def Let_def)

lemma layout_group_stack:
  "gl_blockHeight (layout_group columnWidth Y itemElements (i, category, groupAds)) + itemGap
     = real (group_rows columnWidth (length groupAds)) * (baseHeight + itemGap)"
  by (simp add: layout_group_def Let_def)

lemma layout_group_item_bottom:
  assumes "(ad, r) \<in> set (gl_items (layout_group columnWidth Y itemElements (i, category, groupAds)))"
  shows "r_top r + r_height r \<le> Y"
proof -
  from assms obtain j where j: "j < length groupAds"
    and r: "r = \<lparr>r_left = (real i + 1 / 2) * columnWidth
                     - (real (group_cols columnWidth) * (baseHeight + itemGap) - itemGap) / 2
                     + real (j mod group_cols columnWidth) * (baseHeight + itemGap),
                 r_top = Y - (real (group_rows columnWidth (length groupAds)) * (baseHeight + itemGap) - itemGap)
                     + real (j div group_cols columnWidth) * (baseHeight + itemGap),
                 r_width = baseHeight, r_height = baseHeight\<rparr>"
    by (auto simp: layout_group_def Let_def in_set_enumerate_eq)
  have "j div group_cols columnWidth < group_rows columnWidth (length groupAds)"
    unfolding group_rows_def using group_cols_pos j by (rule ceiling_rows)
  then have "real (j div group_cols columnWidth) + 1 \<le> real (group_rows columnWidth (length groupAds))"
    by linarith
  then have "(real (j div group_cols columnWidth) + 1) * (baseHeight + itemGap)
               \<le> real (group_rows columnWidth (length groupAds)) * (baseHeight + itemGap)"
    by (intro mult_right_mono) (simp_all add: baseHeight_def itemGap_def)
  then show ?thesis
    unfolding r by (simp add: algebra_simps)
qed

lemma layout_group_last_item:
  assumes ne: "groupAds \<noteq> []" and shown: "is_shown itemElements (last groupAds)"
  shows "\<exists>(ad, r)\<in>set (gl_items (layout_group columnWidth Y itemElements (i, category, groupAds))).
           ad = last groupAds \<and> r_top r + r_height r = Y"
proof -
  let ?n = "length groupAds - 1"
  let ?cols = "group_cols columnWidth"
  let ?r = "\<lparr>r_left = (real i + 1 / 2) * columnWidth
                     - (real ?cols * (baseHeight + itemGap) - itemGap) / 2
                     + real (?n mod ?cols) * (baseHeight + itemGap),
             r_top = Y - (real (group_rows columnWidth (length groupAds)) * (baseHeight + itemGap) - itemGap)
                     + real (?n div ?cols) * (baseHeight + itemGap),
             r_width = baseHeight, r_height = baseHeight\<rparr>"
  have n: "?n < length groupAds" using ne by simp
  have lastn: "groupAds ! ?n = last groupAds" using ne by (simp add: last_conv_nth)
  have "(?n, last groupAds) \<in> set (enumerate 0 groupAds)"
    using n lastn by (simp add: in_set_enumerate_eq)
  then have "(?n, last groupAds)
      \<in> set (filter (\<lambda>(i, ad). is_shown itemElements ad) (enumerate 0 groupAds))"
    using shown by simp
  then have mem: "(last groupAds, ?r)
      \<in> set (gl_items (layout_group columnWidth Y itemElements (i, category, groupAds)))"
    by (force simp: layout_group_def Let_def)
  have rows: "group_rows columnWidth (length groupAds) = ?n div ?cols + 1"
    unfolding group_rows_def using group_cols_pos ne by (intro ceiling_rows_last) simp_all
  have "r_top ?r + r_height ?r = Y"
    by (simp add: rows algebra_simps)
  with mem show ?thesis by blast
qed

lemma layout_group_centre:
  "gl_label_left (layout_group columnWidth Y itemElements (i, g))
     = (real i + 1 / 2) * columnWidth - 60 \<and>
   gl_blockX (layout_group columnWidth Y itemElements (i, g))
     + gl_blockWidth (layout_group columnWidth Y itemElements (i, g)) / 2
     = (real i + 1 / 2) * columnWidth"
  by (cases g) (simp add: layout_group_def Let_def)

lemma layout_group_category:
  "gl_category (layout_group columnWidth Y itemElements (i, g)) = fst g"
  by (cases g) (simp add: layout_group_def Let_def)

text \<open>
  Claim C7, as amended. In the grouped layout, for every partition of the ads into
  groups: the bottom edge of every group's block is at one common baseline, the
  baseline is the height of the tallest stack, no item reaches below it and (when the
  ads are shown) the last item of every group ends exactly on it; every group's label
  is placed at the baseline plus the margin of 10; the groups come in strictly
  increasing order of their keys; and group \<open>i\<close> is centred, with its label, in slot
  \<open>i\<close> of equal-width slots whose width is the floor of containerWidth / groupCount.
\<close>

theorem grouped_common_baseline:
  "(\<forall>g\<in>set (applyGroupedLayout clientWidth itemElements unknown attr filteredAds).
      gl_stackTopY g + gl_blockHeight g = grouped_baseline clientWidth unknown attr filteredAds \<and>
      gl_label_top g = grouped_baseline clientWidth unknown attr filteredAds + 10 \<and>
      gl_blockHeight g + itemGap \<le> grouped_baseline clientWidth unknown attr filteredAds \<and>
      (\<forall>(ad, r)\<in>set (gl_items g).
          r_top r + r_height r \<le> grouped_baseline clientWidth unknown attr filteredAds)) \<and>
   ((\<forall>ad\<in>set filteredAds. is_shown itemElements ad) \<longrightarrow>
      (\<forall>g\<in>set (applyGroupedLayout clientWidth itemElements unknown attr filteredAds).
         \<exists>(ad, r)\<in>set (gl_items g).
            r_top r + r_height r = grouped_baseline clientWidth unknown attr filteredAds)) \<and>
   (applyGroupedLayout clientWidth itemElements unknown attr filteredAds \<noteq> [] \<longrightarrow>
      (\<exists>g\<in>set (applyGroupedLayout clientWidth itemElements unknown attr filteredAds).
         gl_blockHeight g + itemGap = grouped_baseline clientWidth unknown attr filteredAds)) \<and>
   sorted_wrt (<) (map gl_category
      (applyGroupedLayout clientWidth itemElements unknown attr filteredAds)) \<and>
   (\<forall>i<length (applyGroupedLayout clientWidth itemElements unknown attr filteredAds).
      gl_label_left (applyGroupedLayout clientWidth itemElements unknown attr filteredAds ! i)
        = (real i + 1 / 2)
          * real_of_int \<lfloor>(clientWidth - padding * 2)
              / real (length (applyGroupedLayout clientWidth itemElements unknown attr filteredAds))\<rfloor>
          - 60 \<and>
      gl_blockX (applyGroupedLayout clientWidth itemElements unknown attr filteredAds ! i)
        + gl_blockWidth (applyGroupedLayout clientWidth itemElements unknown attr filteredAds ! i) / 2
        = (real i + 1 / 2)
          * real_of_int \<lfloor>(clientWidth - padding * 2)
              / real (length (applyGroupedLayout clientWidth itemElements unknown attr filteredAds))\<rfloor>)"
  (is "?A \<and> ?B \<and> ?C \<and> ?D \<and> ?E")
proof -
  let ?sg = "sortedGroups unknown attr filteredAds"
  let ?out = "applyGroupedLayout clientWidth itemElements unknown attr filteredAds"
  let ?Y = "grouped_baseline clientWidth unknown attr filteredAds"
  let ?w = "grouped_columnWidth clientWidth (length ?sg)"
  have Y: "?Y = maxStackHeight ?w ?sg"
    by (simp add: grouped_baseline_def Let_def)
  have out: "?out = map (layout_group ?w ?Y itemElements) (enumerate 0 ?sg)"
    by (simp add: applyGroupedLayout_def grouped_baseline_def Let_def)
  have len: "length ?out = length ?sg" by (simp add: out)
  have nth: "?out ! i = layout_group ?w ?Y itemElements (i, fst (?sg ! i), snd (?sg ! i))"
    if "i < length ?sg" for i
    using that by (simp add: out nth_enumerate_eq)
  have a: ?A
  proof
    fix g assume "g \<in> set ?out"
    then obtain i category groupAds where i: "i < length ?sg"
      and sg: "?sg ! i = (category, groupAds)"
      and g: "g = layout_group ?w ?Y itemElements (i, category, groupAds)"
      by (rule layout_group_in)
    from i sg have mem: "(category, groupAds) \<in> set ?sg" by (metis nth_mem)
    have "gl_blockHeight g + itemGap \<le> ?Y"
      unfolding g layout_group_stack Y using mem by (rule maxStackHeight_upper)
    moreover have "\<forall>(ad, r)\<in>set (gl_items g). r_top r + r_height r \<le> ?Y"
      unfolding g using layout_group_item_bottom by fastforce
    ultimately show "gl_stackTopY g + gl_blockHeight g = ?Y \<and> gl_label_top g = ?Y + 10 \<and>
        gl_blockHeight g + itemGap \<le> ?Y \<and>
        (\<forall>(ad, r)\<in>set (gl_items g). r_top r + r_height r \<le> ?Y)"
      by (simp add: g layout_group_bottom layout_group_label_top)
  qed
  have b: ?B
  proof (intro impI ballI)
    fix g assume shown: "\<forall>ad\<in>set filteredAds. is_shown itemElements ad" and "g \<in> set ?out"
    then obtain i category groupAds where i: "i < length ?sg"
      and sg: "?sg ! i = (category, groupAds)"
      and g: "g = layout_group ?w ?Y itemElements (i, category, groupAds)"
      by (elim layout_group_in)
    from i sg have mem: "(category, groupAds) \<in> set ?sg" by (metis nth_mem)
    from sortedGroups_members [OF mem] have ne: "groupAds \<noteq> []"
      and sub: "set groupAds \<subseteq> set filteredAds" by simp_all
    from ne sub have "last groupAds \<in> set filteredAds" by auto
    with shown have "is_shown itemElements (last groupAds)" by blast
    from layout_group_last_item [OF ne this, of ?w ?Y i category]
    show "\<exists>(ad, r)\<in>set (gl_items g). r_top r + r_height r = ?Y"
      unfolding g by fastforce
  qed
  have c: ?C
  proof
    assume "?out \<noteq> []"
    then have "?sg \<noteq> []" using len by auto
    from maxStackHeight_attained [OF this, of ?w]
    obtain category groupAds where mem: "(category, groupAds) \<in> set ?sg"
      and att: "maxStackHeight ?w ?sg
                  = real (group_rows ?w (length groupAds)) * (baseHeight + itemGap)"
      by auto
    from mem obtain i where i: "i < length ?sg" and sg: "?sg ! i = (category, groupAds)"
      by (auto simp: in_set_conv_nth)
    have "?out ! i \<in> set ?out" using i len by simp
    moreover have "gl_blockHeight (?out ! i) + itemGap = ?Y"
      using nth [OF i] sg att by (simp add: layout_group_stack Y)
    ultimately show "\<exists>g\<in>set ?out. gl_blockHeight g + itemGap = ?Y" by blast
  qed
  have "map gl_category ?out = map fst ?sg"
  proof (rule nth_equalityI)
    show "length (map gl_category ?out) = length (map fst ?sg)" by (simp only: length_map len)
  next
    fix i assume "i < length (map gl_category ?out)"
    then have i: "i < length ?sg" by (simp only: length_map len)
    have "gl_category (?out ! i) = fst (?sg ! i)"
      unfolding nth [OF i] by (simp only: prod.collapse layout_group_category)
    then show "map gl_category ?out ! i = map fst ?sg ! i"
      using i len by (simp only: nth_map)
  qed
  then have d: ?D by (simp only: sortedGroups_strict)
  have w: "?w = real_of_int \<lfloor>(clientWidth - padding * 2) / real (length ?out)\<rfloor>"
    by (simp add: grouped_columnWidth_def Let_def len)
  have e: ?E
  proof (intro allI impI)
    fix i assume "i < length ?out"
    then have i: "i < length ?sg" by (simp add: len)
    have "gl_label_left (?out ! i) = (real i + 1 / 2) * ?w - 60 \<and>
      gl_blockX (?out ! i) + gl_blockWidth (?out ! i) / 2 = (real i + 1 / 2) * ?w"
      using i by (simp add: out nth_enumerate_eq layout_group_centre)
    then show "gl_label_left (?out ! i)
        = (real i + 1 / 2) * real_of_int \<lfloor>(clientWidth - padding * 2) / real (length ?out)\<rfloor> - 60 \<and>
      gl_blockX (?out ! i) + gl_blockWidth (?out ! i) / 2
        = (real i + 1 / 2) * real_of_int \<lfloor>(clientWidth - padding * 2) / real (length ?out)\<rfloor>"
      by (simp only: w)
  qed
  from a b c d e show ?thesis by (intro conjI)
qed

text \<open>
  Seven shown ads in three groups, in a container of client width 140 (100 inside the
  padding): the slots are 33 wide, one column each, and the baseline is 162.
\<close>

lemma grouped_example_groups:
  "sortedGroups (0::nat) attr_mod3 ads_seven = [(0, [3, 6]), (1, [1, 4, 7]), (2, [2, 5])]"
  by (simp add: sortedGroups_def build_groups_def groups_push_def group_key_def attr_mod3_def
      ads_seven_def)

lemma grouped_example_width: "grouped_columnWidth 140 (Suc (Suc (Suc 0))) = 33"
  by (simp add: grouped_columnWidth_def padding_def Let_def)

lemma grouped_example_cols: "group_cols 33 = 1"
  by (simp add: group_cols_def baseHeight_def itemGap_def blockGap_def Let_def)

lemma grouped_example_baseline:
  "grouped_baseline 140 (0::nat) attr_mod3 ads_seven = 162"
  by (simp add: grouped_baseline_def grouped_example_groups grouped_example_width
      maxStackHeight_def stack_step_def group_rows_def grouped_example_cols
      baseHeight_def itemGap_def Let_def)

lemma grouped_example_length:
  "length (applyGroupedLayout 140 all_shown (0::nat) attr_mod3 ads_seven) = 3"
  by (simp add: applyGroupedLayout_def grouped_example_groups Let_def)

text \<open>In that layout every block ends at 162 and every label is at 172.\<close>

theorem grouped_common_baseline_witness:
  "length (applyGroupedLayout 140 all_shown (0::nat) attr_mod3 ads_seven) = 3 \<and>
   gl_stackTopY (applyGroupedLayout 140 all_shown (0::nat) attr_mod3 ads_seven ! 0)
     + gl_blockHeight (applyGroupedLayout 140 all_shown (0::nat) attr_mod3 ads_seven ! 0) = 162 \<and>
   gl_stackTopY (applyGroupedLayout 140 all_shown (0::nat) attr_mod3 ads_seven ! 1)
     + gl_blockHeight (applyGroupedLayout 140 all_shown (0::nat) attr_mod3 ads_seven ! 1) = 162 \<and>
   gl_stackTopY (applyGroupedLayout 140 all_shown (0::nat) attr_mod3 ads_seven ! 2)
     + gl_blockHeight (applyGroupedLayout 140 all_shown (0::nat) attr_mod3 ads_seven ! 2) = 162 \<and>
   gl_label_top (applyGroupedLayout 140 all_shown (0::nat) attr_mod3 ads_seven ! 0) = 172 \<and>
   gl_label_top (applyGroupedLayout 140 all_shown (0::nat) attr_mod3 ads_seven ! 1) = 172 \<and>
   gl_label_top (applyGroupedLayout 140 all_shown (0::nat) attr_mod3 ads_seven ! 2) = 172"
proof -
  let ?out = "applyGroupedLayout 140 all_shown (0::nat) attr_mod3 ads_seven"
  note t = grouped_common_baseline [of 140 all_shown "0::nat" attr_mod3 ads_seven]
  have a: "gl_stackTopY g + gl_blockHeight g = 162 \<and> gl_label_top g = 172" if "g \<in> set ?out" for g
    using t [THEN conjunct1, THEN bspec, OF that]
    by (simp add: grouped_example_baseline)
  have "?out ! 0 \<in> set ?out" and "?out ! 1 \<in> set ?out" and "?out ! 2 \<in> set ?out"
    by (simp_all add: grouped_example_length)
  from this [THEN a] grouped_example_length show ?thesis by simp
qed

text \<open>
  The second of the three groups is centred at 1.5 * 33 = 49.5: the slot width is 33,
  not 100 / 3.
\<close>

theorem grouped_slot_width_counterexample:
  "length (applyGroupedLayout 140 all_shown (0::nat) attr_mod3 ads_seven) = 3 \<and>
   gl_label_left (applyGroupedLayout 140 all_shown (0::nat) attr_mod3 ads_seven ! 1) + 60
     = (1 + 1 / 2) * 33 \<and>
   (140 - padding * 2) / 3 \<noteq> 33"
proof -
  have "applyGroupedLayout 140 all_shown (0::nat) attr_mod3 ads_seven ! 1
      = layout_group 33 162 all_shown (1, 1, [1, 4, 7])"
    using grouped_example_baseline
    by (simp add: applyGroupedLayout_def grouped_baseline_def grouped_example_groups
        grouped_example_width Let_def nth_enumerate_eq)
  then have "gl_label_left (applyGroupedLayout 140 all_shown (0::nat) attr_mod3 ads_seven ! 1) + 60
      = (1 + 1 / 2) * 33"
    by (simp add: layout_group_centre)
  then show ?thesis
    using grouped_example_length by (simp add: padding_def)
qed

section \<open>Properties of the animation engine\<close>

lemma firstPositions_foldl:
  "foldl (\<lambda>m el. case el of None \<Rightarrow> m | Some e \<Rightarrow> m(e \<mapsto> record_first (rects e))) m elements e
     = (if Some e \<in> set elements then Some (record_first (rects e)) else m e)"
  by (induction elements arbitrary: m) (auto split: option.splits)

lemma firstPositions_Some:
  "Some e \<in> set elements \<Longrightarrow> firstPositions rects elements e = Some (record_first (rects e))"
  unfolding firstPositions_def firstPositions_foldl by simp

lemma flip_skips_same:
  assumes "g_width g \<noteq> 0" and "g_height g \<noteq> 0"
  shows "flip_skips (record_first g) g"
  using assms by (simp add: flip_skips_def record_first_def js_or_def Let_def)

lemma flip_skips_zero_width:
  assumes "g_width g = 0"
  shows "\<not> flip_skips (record_first g) g"
  using assms by (simp add: flip_skips_def record_first_def js_or_def Let_def)

lemma flip_element_skip_all:
  assumes "\<forall>e. Some e \<in> set elements \<longrightarrow>
             (\<exists>first. firsts e = Some first \<and> flip_skips first (lasts e))"
  shows "foldl (flip_element firsts lasts) acc elements = acc"
  using assms
proof (induction elements arbitrary: acc)
  case Nil
  show ?case by simp
next
  case (Cons el elements)
  have "flip_element firsts lasts acc el = acc"
  proof (cases el)
    case None
    then show ?thesis by (simp add: flip_element_def)
  next
    case (Some e)
    with Cons.prems obtain first where "firsts e = Some first" and "flip_skips first (lasts e)"
      by auto
    with Some show ?thesis by (simp add: flip_element_def)
  qed
  moreover have "foldl (flip_element firsts lasts) acc elements = acc"
    using Cons.prems by (intro Cons.IH) auto
  ultimately show ?case by simp
qed

lemma settle_empty_batch:
  "settle (s\<lparr>pending := pending s @ [([], onComplete)]\<rparr>)
     = (settle s)\<lparr>completed := completed (settle s) @ [onComplete]\<rparr>"
  by (simp add: settle_def batch_rejected_def batch_resolved_def)

text \<open>
  When every element keeps its geometry and has a width and a height that are not
  zero, \<open>flip\<close> starts no animation, leaves the map alone, and its \<open>onComplete\<close> is
  called once, at once (the empty batch resolves).
\<close>

lemma flip_identical_nonzero_size:
  assumes "\<forall>e. Some e \<in> set elements \<longrightarrow>
             layoutChange rects e = rects e \<and> g_width (rects e) \<noteq> 0 \<and> g_height (rects e) \<noteq> 0"
  shows "fst (flip elements layoutChange onComplete rects s) = [] \<and>
         completed (snd (flip elements layoutChange onComplete rects s))
           = completed (settle s) @ [onComplete] \<and>
         runningAnimations (snd (flip elements layoutChange onComplete rects s))
           = runningAnimations s"
proof -
  have "\<forall>e. Some e \<in> set elements \<longrightarrow>
          (\<exists>first. firstPositions rects elements e = Some first \<and>
                   flip_skips first (layoutChange rects e))"
    using assms by (auto simp: firstPositions_Some flip_skips_same)
  then have "foldl (flip_element (firstPositions rects elements) (layoutChange rects)) ([], s) elements
               = ([], s)"
    by (rule flip_element_skip_all)
  then have "flip elements layoutChange onComplete rects s
               = ([], settle (s\<lparr>pending := pending s @ [([], onComplete)]\<rparr>))"
    by (simp add: flip_def Let_def)
  then show ?thesis
    by (simp add: settle_empty_batch) (simp add: settle_def)
qed

text \<open>
  Claim C3, at an element without size (for instance one with \<open>display: none\<close>, whose
  rectangle is all zero): its First and Last geometries are identical, yet the width
  ratio is computed as 0 / 1 = 0, the test of lines 66-68 fails, and \<open>flip\<close> starts an
  animation on it; \<open>onComplete\<close> is not called at once but waits for that animation.
\<close>

theorem flip_zero_size_starts_animation:
  "flip [Some (1::nat)] (\<lambda>d. d) ''onComplete'' dom_hidden animator_init
     = ([0], \<lparr>runningAnimations = [(1, 0)],
              animations = [\<lparr>anim_target = 1, playState = Running\<rparr>],
              pending = [([0], ''onComplete'')], completed = []\<rparr>)"
  by (simp add: flip_def firstPositions_def flip_element_def flip_skips_def record_first_def
      start_animation_def cancel_running_def settle_def batch_rejected_def batch_resolved_def
      animator_init_def dom_hidden_def geometry_zero_def parse_or_def js_or_def Let_def)




lemma settle_registry [simp]:
  "runningAnimations (settle s) = runningAnimations s" "animations (settle s) = animations s"
  by (simp_all add: settle_def)









lemma cancel_running_fields [simp]:
  "runningAnimations (cancel_running el s) = runningAnimations s"
  "length (animations (cancel_running el s)) = length (animations s)"
  by (simp_all add: cancel_running_def animation_cancel_def split: option.splits)

































end
